theory Spec2Isabelle
  imports Main "HOL-Library.Word"
begin

unbundle bit_operations_syntax

section \<open>The capture probe: bpf/http/tc\_http.c\<close>

subsection \<open>Constants and data\<close>

type_synonym u8 = "8 word"
type_synonym u16 = "16 word"
type_synonym u32 = "32 word"

text \<open>The action codes of the traffic-control hook, as the file defines them.\<close>

definition TC_ACT_UNSPEC :: int where "TC_ACT_UNSPEC = -1"
definition TC_ACT_OK :: int where "TC_ACT_OK = 0"
definition TC_ACT_SHOT :: int where "TC_ACT_SHOT = 2"
definition TC_ACT_STOLEN :: int where "TC_ACT_STOLEN = 4"
definition TC_ACT_REDIRECT :: int where "TC_ACT_REDIRECT = 7"

definition ETH_P_IP :: u16 where "ETH_P_IP = 0x0800"

definition HTTP_DATA_MIN_SIZE :: nat where "HTTP_DATA_MIN_SIZE = 91"
definition MAX_DATA_SIZE :: nat where "MAX_DATA_SIZE = 4000"

text \<open>\<^verbatim>\<open>enum tc_type { Egress, Ingress }\<close>: the enumerators have the values 0 and 1.\<close>

datatype tc_type = Egress | Ingress

fun tc_type_code :: "tc_type \<Rightarrow> u32" where
  "tc_type_code Egress = 0"
| "tc_type_code Ingress = 1"

text \<open>
  \<^verbatim>\<open>struct http_data_event { enum tc_type type; __u8 data[4000]; __u32 data_len; }\<close>.
  The array is a list; a well-formed value has \<open>length (data ev) = MAX_DATA_SIZE\<close>.
\<close>

record http_data_event =
  type :: tc_type
  data :: "u8 list"
  data_len :: u32

definition event_wf :: "http_data_event \<Rightarrow> bool" where
  "event_wf ev = (length (data ev) = MAX_DATA_SIZE)"

text \<open>
  The header structures come from \<^verbatim>\<open>vmlinux.h\<close>, which is not part of the sources: their
  sizes (\<^verbatim>\<open>ETH_HLEN\<close>, \<^verbatim>\<open>IP_HLEN\<close>, \<^verbatim>\<open>TCP_HLEN\<close> are \<^verbatim>\<open>sizeof\<close> of them), the
  offsets of the two fields the probe reads and the value of \<^verbatim>\<open>IPPROTO_TCP\<close> are
  parameters of the model. \<open>linux_hdrs\<close> gives the values of the Linux headers, for
  concrete runs.
\<close>

record hdrs =
  ETH_HLEN :: nat
  IP_HLEN :: nat
  TCP_HLEN :: nat
  h_proto_off :: nat
  protocol_off :: nat
  IPPROTO_TCP :: u8

definition linux_hdrs :: hdrs where
  "linux_hdrs = \<lparr>ETH_HLEN = 14, IP_HLEN = 20, TCP_HLEN = 20,
                 h_proto_off = 12, protocol_off = 9, IPPROTO_TCP = 6\<rparr>"

subsection \<open>Kernel state seen by the probe\<close>

text \<open>
  Pointers handed out by the two maps: the single slot of the per-CPU array
  \<^verbatim>\<open>data_buffer_heap\<close>, and a record reserved in the ring buffer \<^verbatim>\<open>http_events\<close>.
\<close>

datatype ptr = Heap_slot | Ring_record nat

datatype helper_call =
    Map_lookup_elem "ptr option"
  | Ringbuf_reserve "ptr option"
  | Ringbuf_submit ptr
  | Ringbuf_discard ptr

record bpf_state =
  mem :: "ptr \<Rightarrow> http_data_event"
  http_events :: "http_data_event list"
  calls :: "helper_call list"

text \<open>
  What the kernel answers in one run of the probe: whether \<^verbatim>\<open>bpf_skb_pull_data\<close>
  succeeds, whether the array lookup finds the slot, and where (if anywhere) the ring
  buffer reserves the record.
\<close>

record env =
  pull_ok :: bool
  lookup_ok :: bool
  reserve_at :: "nat option"

text \<open>
  The packet: the bytes between \<^verbatim>\<open>skb->data\<close> and \<^verbatim>\<open>skb->data_end\<close>, and the bytes
  held in fragments. \<^verbatim>\<open>bpf_skb_pull_data(skb, skb->len)\<close> moves the fragments into the
  linear part when it succeeds and leaves the packet alone when it fails.
\<close>

record sk_buff =
  linear :: "u8 list"
  paged :: "u8 list"

definition bpf_skb_pull_data :: "env \<Rightarrow> sk_buff \<Rightarrow> sk_buff" where
  "bpf_skb_pull_data e skb =
     (if pull_ok e then \<lparr>linear = linear skb @ paged skb, paged = []\<rparr> else skb)"

definition bpf_map_lookup_elem :: "env \<Rightarrow> bpf_state \<Rightarrow> ptr option \<times> bpf_state" where
  "bpf_map_lookup_elem e s =
     (let r = (if lookup_ok e then Some Heap_slot else None)
      in (r, s\<lparr>calls := calls s @ [Map_lookup_elem r]\<rparr>))"

definition bpf_ringbuf_reserve :: "env \<Rightarrow> bpf_state \<Rightarrow> ptr option \<times> bpf_state" where
  "bpf_ringbuf_reserve e s =
     (let r = map_option Ring_record (reserve_at e)
      in (r, s\<lparr>calls := calls s @ [Ringbuf_reserve r]\<rparr>))"

definition bpf_ringbuf_submit :: "ptr \<Rightarrow> bpf_state \<Rightarrow> bpf_state" where
  "bpf_ringbuf_submit p s =
     s\<lparr>http_events := http_events s @ [mem s p], calls := calls s @ [Ringbuf_submit p]\<rparr>"

text \<open>Writes through an event pointer.\<close>

definition set_type :: "ptr \<Rightarrow> tc_type \<Rightarrow> bpf_state \<Rightarrow> bpf_state" where
  "set_type p t s = s\<lparr>mem := (mem s)(p := (mem s p)\<lparr>type := t\<rparr>)\<rparr>"

definition set_data_len :: "ptr \<Rightarrow> u32 \<Rightarrow> bpf_state \<Rightarrow> bpf_state" where
  "set_data_len p n s = s\<lparr>mem := (mem s)(p := (mem s p)\<lparr>data_len := n\<rparr>)\<rparr>"

definition set_data :: "ptr \<Rightarrow> nat \<Rightarrow> u8 \<Rightarrow> bpf_state \<Rightarrow> bpf_state" where
  "set_data p k b s = s\<lparr>mem := (mem s)(p := (mem s p)\<lparr>data := (data (mem s p))[k := b]\<rparr>)\<rparr>"

subsection \<open>Header fields\<close>

text \<open>
  The probe runs on a little-endian machine (the reader in main.go decodes the record
  with \<^verbatim>\<open>binary.LittleEndian\<close>): a 16-bit load takes the low byte first, and
  \<^verbatim>\<open>bpf_htons\<close> swaps the two bytes.
\<close>

definition load16 :: "u8 list \<Rightarrow> nat \<Rightarrow> u16" where
  "load16 bs off = word_cat (bs ! (off + 1)) (bs ! off)"

definition bpf_htons :: "u16 \<Rightarrow> u16" where
  "bpf_htons x = word_cat (ucast x :: u8) (ucast (drop_bit 8 x) :: u8)"

definition eth_h_proto :: "hdrs \<Rightarrow> u8 list \<Rightarrow> u16" where
  "eth_h_proto h pkt = load16 pkt (h_proto_off h)"

definition iph_protocol :: "hdrs \<Rightarrow> u8 list \<Rightarrow> u8" where
  "iph_protocol h pkt = pkt ! (ETH_HLEN h + protocol_off h)"

subsection \<open>The probe\<close>

definition create_http_data_event :: "env \<Rightarrow> bpf_state \<Rightarrow> ptr option \<times> bpf_state" where
  "create_http_data_event e s =
     (case bpf_map_lookup_elem e s of
        (None, s') \<Rightarrow> (None, s')
      | (Some event, s') \<Rightarrow> (Some event, s'))"

text \<open>
  The copy loop of \<^verbatim>\<open>capture_packets\<close>: \<open>i\<close> counts to \<^verbatim>\<open>MAX_DATA_SIZE\<close>, \<open>cursor\<close> is
  the offset of the read pointer from \<^verbatim>\<open>skb->data\<close>, and the loop breaks when the next
  byte would lie beyond \<^verbatim>\<open>data_end\<close>.
\<close>

function copy_loop :: "nat \<Rightarrow> nat \<Rightarrow> nat \<Rightarrow> u8 list \<Rightarrow> ptr \<Rightarrow> bpf_state \<Rightarrow> bpf_state" where
  "copy_loop i cursor name_pos pkt event s =
     (if i < MAX_DATA_SIZE then
        (if cursor + 1 > length pkt then s
         else copy_loop (i + 1) (cursor + 1) (name_pos + 1) pkt event
                (set_data event name_pos (pkt ! cursor) s))
      else s)"
  by pat_completeness auto
termination
  by (relation "measure (\<lambda>(i, cursor, name_pos, pkt, event, s). MAX_DATA_SIZE - i)") auto

declare copy_loop.simps [simp del]

definition capture_packets ::
  "hdrs \<Rightarrow> env \<Rightarrow> sk_buff \<Rightarrow> tc_type \<Rightarrow> bpf_state \<Rightarrow> int \<times> bpf_state" where
  "capture_packets h e skb0 t s =
     (let skb = bpf_skb_pull_data e skb0;
          pkt = linear skb;
          data_end = length pkt
      in
        if ETH_HLEN h + IP_HLEN h + TCP_HLEN h > data_end then (TC_ACT_OK, s)
        else if eth_h_proto h pkt \<noteq> bpf_htons ETH_P_IP then (TC_ACT_OK, s)
        else if iph_protocol h pkt \<noteq> IPPROTO_TCP h then (TC_ACT_OK, s)
        else
          let len = (of_nat data_end :: u32) in
          if len < 0 then (TC_ACT_OK, s)
          else if len \<le> of_nat HTTP_DATA_MIN_SIZE then (TC_ACT_OK, s)
          else
            (case create_http_data_event e s of
               (None, s1) \<Rightarrow> (TC_ACT_OK, s1)
             | (Some scratch, s1) \<Rightarrow>
                 (case bpf_ringbuf_reserve e s1 of
                    (None, s2) \<Rightarrow> (0, s2)
                  | (Some event, s2) \<Rightarrow>
                      let s3 = set_type event t s2;
                          s4 = set_data_len event
                                 (if len < of_nat MAX_DATA_SIZE then len else of_nat MAX_DATA_SIZE) s3;
                          s5 = copy_loop 0 0 0 pkt event s4;
                          s6 = bpf_ringbuf_submit event s5
                      in (TC_ACT_OK, s6))))"

definition egress_cls_func :: "hdrs \<Rightarrow> env \<Rightarrow> sk_buff \<Rightarrow> bpf_state \<Rightarrow> int \<times> bpf_state" where
  "egress_cls_func h e skb s = capture_packets h e skb Egress s"

definition ingress_cls_func :: "hdrs \<Rightarrow> env \<Rightarrow> sk_buff \<Rightarrow> bpf_state \<Rightarrow> int \<times> bpf_state" where
  "ingress_cls_func h e skb s = capture_packets h e skb Ingress s"

subsection \<open>The frame and the record as userspace sees them\<close>

text \<open>
  The frame of a run is what lies between \<^verbatim>\<open>data\<close> and \<^verbatim>\<open>data_end\<close> once the packet
  has been pulled; its Ethertype is the 16-bit field at \<open>h_proto_off\<close>, most significant
  byte first, as it travels on the wire.
\<close>

definition frame_bytes :: "env \<Rightarrow> sk_buff \<Rightarrow> u8 list" where
  "frame_bytes e skb = linear (bpf_skb_pull_data e skb)"

definition ethertype :: "hdrs \<Rightarrow> u8 list \<Rightarrow> u16" where
  "ethertype h pkt = word_cat (pkt ! h_proto_off h) (pkt ! (h_proto_off h + 1))"

text \<open>
  The record in the ring buffer is the structure as it lies in memory: the enumerator as
  four bytes, the array, the length as four bytes, least significant byte first.
\<close>

definition le32 :: "u32 \<Rightarrow> u8 list" where
  "le32 x = [ucast x, ucast (drop_bit 8 x), ucast (drop_bit 16 x), ucast (drop_bit 24 x)]"

definition wire_record :: "http_data_event \<Rightarrow> u8 list" where
  "wire_record ev = le32 (tc_type_code (type ev)) @ data ev @ le32 (data_len ev)"

text \<open>\<open>poke q x s\<close> overwrites one cell of the memory.\<close>

definition poke :: "ptr \<Rightarrow> http_data_event \<Rightarrow> bpf_state \<Rightarrow> bpf_state" where
  "poke q x s = s\<lparr>mem := (mem s)(q := x)\<rparr>"

subsection \<open>Concrete runs\<close>

text \<open>
  A 200-byte Ethernet, IPv4 and TCP frame whose payload starts with
  \<^verbatim>\<open>GET / HTTP/1.1\<close>, a 50-byte frame, and a 200-byte ARP frame; a kernel state with
  zeroed cells and an empty ring buffer; helpers that all succeed.
\<close>

definition frame200 :: "u8 list" where
  "frame200 = replicate 12 0 @ [0x08, 0x00]
     @ [0x45] @ replicate 8 0 @ [6] @ replicate 10 0
     @ replicate 20 0
     @ [0x47, 0x45, 0x54, 0x20, 0x2f, 0x20, 0x48, 0x54, 0x54, 0x50, 0x2f, 0x31, 0x2e, 0x31, 0x0d, 0x0a]
     @ replicate 130 0x20"

definition frame50 :: "u8 list" where
  "frame50 = replicate 12 0 @ [0x08, 0x00] @ [0x45] @ replicate 8 0 @ [6] @ replicate 26 0"

definition frame_arp :: "u8 list" where
  "frame_arp = replicate 12 0xff @ [0x08, 0x06] @ replicate 186 0"

definition kernel0 :: bpf_state where
  "kernel0 = \<lparr>mem = (\<lambda>_. \<lparr>type = Egress, data = replicate MAX_DATA_SIZE 0, data_len = 0\<rparr>),
         http_events = [], calls = []\<rparr>"

definition helpers_ok :: env where
  "helpers_ok = \<lparr>pull_ok = True, lookup_ok = True, reserve_at = Some 0\<rparr>"

section \<open>The userspace program: main.go\<close>

subsection \<open>Errors\<close>

text \<open>
  Go errors: a sentinel for a closed reader (\<^verbatim>\<open>perf.ErrClosed\<close> and
  \<^verbatim>\<open>ringbuf.ErrClosed\<close> are both \<^verbatim>\<open>os.ErrClosed\<close>), an error made from a message, and
  an error wrapped by \<^verbatim>\<open>fmt.Errorf\<close> with \<^verbatim>\<open>%w\<close>. \<^verbatim>\<open>errors.Is\<close> follows the chain
  of wrapped errors.
\<close>

datatype error = ErrClosed | New string | Wrap string error

fun errors_Is :: "error \<Rightarrow> error \<Rightarrow> bool" where
  "errors_Is (Wrap m e) target = (Wrap m e = target \<or> errors_Is e target)"
| "errors_Is e target = (e = target)"

subsection \<open>The kernel's traffic-control tables, through netlink\<close>

text \<open>Constants of the netlink and unix packages.\<close>

definition HANDLE_CLSACT :: u32 where "HANDLE_CLSACT = 0xFFFFFFF1"
definition HANDLE_MIN_INGRESS :: u32 where "HANDLE_MIN_INGRESS = 0xFFFFFFF2"
definition HANDLE_MIN_EGRESS :: u32 where "HANDLE_MIN_EGRESS = 0xFFFFFFF3"
definition ETH_P_ALL :: u16 where "ETH_P_ALL = 0x0003"

definition MakeHandle :: "u16 \<Rightarrow> u16 \<Rightarrow> u32" where
  "MakeHandle major minor = push_bit 16 (ucast major) OR ucast minor"

text \<open>\<^verbatim>\<open>link.Attrs()\<close>: the interface's index and name.\<close>

record LinkAttrs =
  Index :: int
  Name :: string

text \<open>
  \<^verbatim>\<open>netlink.GenericQdisc\<close> with its \<^verbatim>\<open>QdiscAttrs\<close>, and \<^verbatim>\<open>netlink.BpfFilter\<close> with its
  \<^verbatim>\<open>FilterAttrs\<close>; the embedded structures are flattened, and the fields the two share
  carry the prefix \<open>Qdisc\<close> in the first.
\<close>

record GenericQdisc =
  QdiscLinkIndex :: int
  QdiscHandle :: u32
  QdiscParent :: u32
  QdiscType :: string

record BpfFilter =
  LinkIndex :: int
  Parent :: u32
  Handle :: u32
  Protocol :: u16
  Priority :: u16
  Fd :: int
  FilterName :: string
  DirectAction :: bool

text \<open>
  The kernel's tables: the queueing disciplines and the filters, in the order they were
  created. A queueing discipline is identified by its interface and parent, a filter by
  interface, parent, protocol, priority and handle.
\<close>

record tc_state =
  qdiscs :: "GenericQdisc list"
  filters :: "BpfFilter list"

definition qdisc_key :: "GenericQdisc \<Rightarrow> int \<times> u32" where
  "qdisc_key q = (QdiscLinkIndex q, QdiscParent q)"

definition filter_key :: "BpfFilter \<Rightarrow> int \<times> u32 \<times> u16 \<times> u16 \<times> u32" where
  "filter_key f = (LinkIndex f, Parent f, Protocol f, Priority f, Handle f)"

text \<open>
  Replace: the entry with the same key is overwritten where it stands; without one, the
  new entry is added. Add, by contrast, refuses an existing key (the program never calls
  it).
\<close>

fun replace_by :: "('a \<Rightarrow> 'k) \<Rightarrow> 'a \<Rightarrow> 'a list \<Rightarrow> 'a list" where
  "replace_by key x [] = [x]"
| "replace_by key x (y # ys) = (if key y = key x then x # ys else y # replace_by key x ys)"

text \<open>
  Each netlink call takes the error the kernel answers with, if any; a failed call
  changes nothing.
\<close>

definition QdiscReplace :: "error option \<Rightarrow> GenericQdisc \<Rightarrow> tc_state \<Rightarrow> error option \<times> tc_state" where
  "QdiscReplace err qdisc k =
     (case err of
        Some e \<Rightarrow> (Some e, k)
      | None \<Rightarrow> (None, k\<lparr>qdiscs := replace_by qdisc_key qdisc (qdiscs k)\<rparr>))"

definition FilterReplace :: "error option \<Rightarrow> BpfFilter \<Rightarrow> tc_state \<Rightarrow> error option \<times> tc_state" where
  "FilterReplace err filter' k =
     (case err of
        Some e \<Rightarrow> (Some e, k)
      | None \<Rightarrow> (None, k\<lparr>filters := replace_by filter_key filter' (filters k)\<rparr>))"

definition FilterDel :: "error option \<Rightarrow> BpfFilter \<Rightarrow> tc_state \<Rightarrow> error option \<times> tc_state" where
  "FilterDel err filter' k =
     (case err of
        Some e \<Rightarrow> (Some e, k)
      | None \<Rightarrow> (None, k\<lparr>filters := [f \<leftarrow> filters k. filter_key f \<noteq> filter_key filter']\<rparr>))"

subsection \<open>replaceQdisc and attachTC\<close>

definition replaceQdisc :: "error option \<Rightarrow> LinkAttrs \<Rightarrow> tc_state \<Rightarrow> error option \<times> tc_state" where
  "replaceQdisc err link k =
     (let qdisc = \<lparr>QdiscLinkIndex = Index link, QdiscHandle = MakeHandle 0xffff 0,
                   QdiscParent = HANDLE_CLSACT, QdiscType = ''clsact''\<rparr>
      in QdiscReplace err qdisc k)"

text \<open>
  \<open>errs\<close> are the answers to the two netlink calls; \<open>prog\<close> is the program's file
  descriptor (\<^verbatim>\<open>prog.FD()\<close>).
\<close>

definition attachTC ::
  "error option \<times> error option \<Rightarrow> LinkAttrs \<Rightarrow> int \<Rightarrow> string \<Rightarrow> u32 \<Rightarrow> tc_state
   \<Rightarrow> (error + BpfFilter) \<times> tc_state" where
  "attachTC errs link prog progName qdiscParent k =
     (case replaceQdisc (fst errs) link k of
        (Some err, k1) \<Rightarrow>
          (Inl (Wrap (''replacing clsact qdisc for interface '' @ Name link @ '': '') err), k1)
      | (None, k1) \<Rightarrow>
          let filter' = \<lparr>LinkIndex = Index link, Parent = qdiscParent, Handle = 1,
                        Protocol = ETH_P_ALL, Priority = 1, Fd = prog,
                        FilterName = progName @ ''-'' @ Name link, DirectAction = True\<rparr>
          in (case FilterReplace (snd errs) filter' k1 of
                (Some err, k2) \<Rightarrow> (Inl (Wrap ''replacing tc filter: '' err), k2)
              | (None, k2) \<Rightarrow> (Inr filter', k2)))"

text \<open>
  The kernel never holds two queueing disciplines or two filters with the same key.
\<close>

definition tc_wf :: "tc_state \<Rightarrow> bool" where
  "tc_wf k = (distinct (map qdisc_key (qdiscs k)) \<and> distinct (map filter_key (filters k)))"

subsection \<open>Events and their decoding\<close>

text \<open>
  Modelled from the spec: the Go types \<^verbatim>\<open>ringbufHttpDataEvent\<close> and
  \<^verbatim>\<open>perfHttpDataEvent\<close> are generated by bpf2go and are not part of the sources. They
  mirror \<^verbatim>\<open>struct http_data_event\<close>, and the record is laid out as the spec's wire
  table says: direction (4 bytes) at offset 0, payload (4000 bytes) at offset 4, length
  (4 bytes) at offset 4004, little-endian.
\<close>

record HttpDataEvent =
  Type :: u32
  Data :: "u8 list"
  DataLen :: u32

definition event_size :: nat where
  "event_size = 4 + MAX_DATA_SIZE + 4"

definition uint32_le :: "u8 list \<Rightarrow> u32" where
  "uint32_le bs = ucast (bs ! 0) OR push_bit 8 (ucast (bs ! 1))
                  OR push_bit 16 (ucast (bs ! 2)) OR push_bit 24 (ucast (bs ! 3))"

text \<open>
  \<^verbatim>\<open>binary.Read(bytes.NewBuffer(raw), binary.LittleEndian, &event)\<close> reads exactly the
  size of the event: it fails with EOF on an empty sample and with an unexpected EOF on
  a short one, and ignores what follows the event.
\<close>

definition binary_Read :: "u8 list \<Rightarrow> error + HttpDataEvent" where
  "binary_Read raw =
     (if raw = [] then Inl (New ''EOF'')
      else if length raw < event_size then Inl (New ''unexpected EOF'')
      else Inr \<lparr>Type = uint32_le (take 4 raw),
                Data = take MAX_DATA_SIZE (drop 4 raw),
                DataLen = uint32_le (take 4 (drop (4 + MAX_DATA_SIZE) raw))\<rparr>)"

subsection \<open>The dispatch queue\<close>

text \<open>\<^verbatim>\<open>make(chan ringbufHttpDataEvent, 100)\<close>: a buffered channel.\<close>

record chan =
  buf :: "HttpDataEvent list"
  closed :: bool

definition queue_cap :: nat where
  "queue_cap = 100"

subsection \<open>One iteration of the read loop\<close>

text \<open>
  The body of the \<^verbatim>\<open>for\<close> loop of \<^verbatim>\<open>runRingBuf\<close> and of \<^verbatim>\<open>runPerf\<close>, up to the send on
  the queue, which may block: given what \<^verbatim>\<open>rd.Read()\<close> returned (an error, or the
  record's \<^verbatim>\<open>RawSample\<close>), it returns from the function, continues with the next
  iteration, or has an event to send. Log lines are recorded by their format strings.
\<close>

datatype ctl = Continue | Return | Send HttpDataEvent

definition runRingBuf_iter :: "error + u8 list \<Rightarrow> string list \<Rightarrow> ctl \<times> string list" where
  "runRingBuf_iter r lg =
     (case r of
        Inl err \<Rightarrow>
          if errors_Is err ErrClosed then (Return, lg @ [''file already closed''])
          else (Continue, lg @ [''reading from perf event reader: %s''])
      | Inr RawSample \<Rightarrow>
          (case binary_Read RawSample of
             Inl err \<Rightarrow> (Continue, lg @ [''parsing perf event: %s''])
           | Inr event \<Rightarrow> (Send event, lg)))"

definition runPerf_iter :: "error + u8 list \<Rightarrow> string list \<Rightarrow> ctl \<times> string list" where
  "runPerf_iter r lg =
     (case r of
        Inl err \<Rightarrow>
          if errors_Is err ErrClosed then (Return, lg @ [''file already closed''])
          else (Continue, lg @ [''reading from perf event reader: %s''])
      | Inr RawSample \<Rightarrow>
          (case binary_Read RawSample of
             Inl err \<Rightarrow> (Continue, lg @ [''parsing perf event: %s''])
           | Inr event \<Rightarrow> (Send event, lg)))"

subsection \<open>The process\<close>

datatype status = Running | Exited int

datatype TransportMode = RingBuffer | PerfBuffer

text \<open>
  Where the two goroutines of the shutdown stand: the one started in \<^verbatim>\<open>main\<close>, which
  waits for the signal, closes the queue and then the reader; and the main goroutine in
  the read loop, before \<^verbatim>\<open>rd.Read()\<close> or before the send of a decoded event.
\<close>

datatype handler_pc = NotStarted | WaitSignal | CloseQueue | CloseReader | HandlerDone

datatype main_pc = Startup | AtRead | AtSend HttpDataEvent | MainDone

datatype deferred = Defer_objs_Close | Defer_FilterDel BpfFilter | Defer_rd_Close | Defer_db_Close

record proc =
  mode :: "TransportMode option"
  tc :: tc_state
  logged :: "string list"
  status :: status
  defers_main :: "deferred list"
  defers_run :: "deferred list"
  queueTask :: chan
  rd_closed :: bool
  stopper :: bool
  handler :: handler_pc
  mainpc :: main_pc

text \<open>
  What the environment answers to the calls of \<^verbatim>\<open>main\<close>. The kernel version and the two
  thresholds are of a linearly ordered type: the version type and the thresholds
  \<^verbatim>\<open>minKernelVer\<close> and \<^verbatim>\<open>maxKernelVer\<close> are declared outside the sources.
\<close>

record 'v main_env =
  InterfaceName :: string
  InterfaceByName :: "error + LinkAttrs"
  GetKernelVersion :: "error + 'v"
  minKernelVer :: 'v
  maxKernelVer :: 'v
  loadObjects :: "error option"
  IngressClsFunc :: int
  EgressClsFunc :: int
  LinkByIndex :: "error option"
  attach_ingress :: "error option \<times> error option"
  attach_egress :: "error option \<times> error option"
  NewReader :: "error option"
  OpenFile :: "error option"
  rd_Close :: "error option"
  FilterDel_err :: "BpfFilter \<Rightarrow> error option"

text \<open>
  Modelled from the spec: \<^verbatim>\<open>isMinKernelVer\<close> is defined outside the sources. By the spec
  it tells whether the version reaches the hard minimum, below which the system refuses
  to start.
\<close>

definition isMinKernelVer :: "'v::linorder \<Rightarrow> 'v \<Rightarrow> bool" where
  "isMinKernelVer minVer v = (minVer \<le> v)"

text \<open>
  Modelled from the spec: \<^verbatim>\<open>isMaxKernelVer\<close> is defined outside the sources. By the spec
  it tells whether the version reaches the second threshold, from which the modern
  transport is selected (\<open>version \<ge> threshold\<close>).
\<close>

definition isMaxKernelVer :: "'v::linorder \<Rightarrow> 'v \<Rightarrow> bool" where
  "isMaxKernelVer maxVer v = (maxVer \<le> v)"

text \<open>\<^verbatim>\<open>log.Fatalf\<close> logs and exits with status 1; deferred calls do not run.\<close>

definition fatal :: "string \<Rightarrow> proc \<Rightarrow> proc" where
  "fatal msg s = s\<lparr>logged := logged s @ [msg], status := Exited 1\<rparr>"

text \<open>
  The head of \<^verbatim>\<open>main\<close>, to the choice of the branch: a fatal message, or the transport
  and the interface.
\<close>

definition main_select :: "'v::linorder main_env \<Rightarrow> string + TransportMode \<times> LinkAttrs" where
  "main_select e =
     (if length (InterfaceName e) = 0 then Inl ''Please specify a network interface''
      else
        case InterfaceByName e of
          Inl err \<Rightarrow> Inl ''lookup network iface %s: %s''
        | Inr iface \<Rightarrow>
            (case GetKernelVersion e of
               Inl err \<Rightarrow> Inl ''kernel version: NOT OK''
             | Inr kernelVersion \<Rightarrow>
                 if \<not> isMinKernelVer (minKernelVer e) kernelVersion
                 then Inl ''kernel version: NOT OK: minimal supported kernel version is %s; kernel version that is running is: %s''
                 else if isMaxKernelVer (maxKernelVer e) kernelVersion
                 then Inr (RingBuffer, iface)
                 else Inr (PerfBuffer, iface)))"

text \<open>The lines logged before the branch (the five lines of the ASCII-art logo are left out).\<close>

definition banner :: "string list" where
  "banner = [''Kernel version: %s'', ''Version %s'',
             ''Attached TC program to iface %q (index %d)'',
             ''Press Ctrl-C to exit and remove the program'',
             ''Successfully started!'']"

text \<open>
  The head of \<^verbatim>\<open>runRingBuf\<close> and \<^verbatim>\<open>runPerf\<close>: open the database (fatal on failure),
  defer its closing, start the consumers, enter the loop.
\<close>

definition run_start :: "'v main_env \<Rightarrow> proc \<Rightarrow> proc" where
  "run_start e s =
     (let s1 = s\<lparr>logged := logged s @ [''Listening for events..'']\<rparr>
      in case OpenFile e of
           Some err \<Rightarrow> fatal ''%v'' s1
         | None \<Rightarrow> s1\<lparr>defers_run := [Defer_db_Close], mainpc := AtRead\<rparr>)"

text \<open>
  One branch of \<^verbatim>\<open>main\<close>. The two branches are the same text for the two transports, but
  for the reader's constructor and for \<^verbatim>\<open>defer rd.Close()\<close>, which only the perf branch
  has. The link found by \<^verbatim>\<open>netlink.LinkByIndex(iface.Index)\<close> is the interface \<open>iface\<close>.
  Deferred calls are stacked, the latest first.
\<close>

definition start :: "TransportMode \<Rightarrow> 'v main_env \<Rightarrow> LinkAttrs \<Rightarrow> proc \<Rightarrow> proc" where
  "start m e iface p =
     (case loadObjects e of
        Some err \<Rightarrow> fatal ''loading objects: %s'' p
      | None \<Rightarrow>
          let s1 = p\<lparr>defers_main := Defer_objs_Close # defers_main p\<rparr> in
          (case LinkByIndex e of
             Some err \<Rightarrow> fatal ''create net link failed: %v'' s1
           | None \<Rightarrow>
               (case attachTC (attach_ingress e) iface (IngressClsFunc e) ''classifier/ingress''
                       HANDLE_MIN_INGRESS (tc s1) of
                  (Inl err, k1) \<Rightarrow> fatal ''attach tc ingress failed, %v'' (s1\<lparr>tc := k1\<rparr>)
                | (Inr infIngress, k1) \<Rightarrow>
                    let s2 = s1\<lparr>tc := k1, defers_main := Defer_FilterDel infIngress # defers_main s1\<rparr> in
                    (case attachTC (attach_egress e) iface (EgressClsFunc e) ''classifier/egress''
                            HANDLE_MIN_EGRESS (tc s2) of
                       (Inl err, k2) \<Rightarrow> fatal ''attach tc egress failed, %v'' (s2\<lparr>tc := k2\<rparr>)
                     | (Inr infEgress, k2) \<Rightarrow>
                         let s3 = s2\<lparr>tc := k2,
                                     defers_main := Defer_FilterDel infEgress # defers_main s2\<rparr> in
                         (case NewReader e of
                            Some err \<Rightarrow>
                              fatal (if m = RingBuffer then ''opening ringbuf reader: %s''
                                     else ''creating perf event reader: %s'') s3
                          | None \<Rightarrow>
                              let s4 = (if m = PerfBuffer
                                        then s3\<lparr>defers_main := Defer_rd_Close # defers_main s3\<rparr>
                                        else s3);
                                  s5 = s4\<lparr>queueTask := \<lparr>buf = [], closed = False\<rparr>,
                                          handler := WaitSignal\<rparr>
                              in run_start e s5)))))"

subsection \<open>Leaving the loop\<close>

definition run_deferred :: "'v main_env \<Rightarrow> deferred \<Rightarrow> proc \<Rightarrow> proc" where
  "run_deferred e d s =
     (case d of
        Defer_FilterDel f \<Rightarrow> s\<lparr>tc := snd (FilterDel (FilterDel_err e f) f (tc s))\<rparr>
      | Defer_rd_Close \<Rightarrow> s\<lparr>rd_closed := True\<rparr>
      | Defer_objs_Close \<Rightarrow> s
      | Defer_db_Close \<Rightarrow> s)"

fun run_defers :: "'v main_env \<Rightarrow> deferred list \<Rightarrow> proc \<Rightarrow> proc" where
  "run_defers e [] s = s"
| "run_defers e (d # ds) s = run_defers e ds (run_deferred e d s)"

text \<open>
  The loop returns: the deferred calls of the run function, the last log line of
  \<^verbatim>\<open>main\<close>, the deferred calls of \<^verbatim>\<open>main\<close>, exit status 0.
\<close>

definition main_returns :: "'v main_env \<Rightarrow> proc \<Rightarrow> proc" where
  "main_returns e s =
     (let s1 = run_defers e (defers_run s) s;
          s2 = s1\<lparr>logged := logged s1 @ [''Received signal, exiting TC program..'']\<rparr>;
          s3 = run_defers e (defers_main s) s2
      in s3\<lparr>mainpc := MainDone, status := Exited 0\<rparr>)"

text \<open>
  A send on a closed channel panics. The panic unwinds the main goroutine, running the
  deferred calls of both functions, and the process exits with status 2.
\<close>

definition main_panics :: "'v main_env \<Rightarrow> proc \<Rightarrow> proc" where
  "main_panics e s =
     (let s1 = run_defers e (defers_run s) s;
          s2 = run_defers e (defers_main s) s1
      in s2\<lparr>logged := logged s2 @ [''panic: send on closed channel''],
             mainpc := MainDone, status := Exited 2\<rparr>)"

subsection \<open>Steps of the goroutines\<close>

text \<open>
  A schedule is a list of actions: the signal arrives; the signal goroutine executes its
  next statement; the main goroutine's \<^verbatim>\<open>rd.Read()\<close> returns (with the given result
  while the reader is open, with the closed-error once it is closed), and the iteration
  runs to the send; the main goroutine sends; the consumer takes a task and slices its
  data. An action that is not enabled (a blocked goroutine) leaves the state as it is.
\<close>

datatype action = Signal | Handler | Read "error + u8 list" | SendTask | Consume

definition handler_step :: "'v main_env \<Rightarrow> proc \<Rightarrow> proc" where
  "handler_step e s =
     (case handler s of
        WaitSignal \<Rightarrow> if stopper s then s\<lparr>stopper := False, handler := CloseQueue\<rparr> else s
      | CloseQueue \<Rightarrow> s\<lparr>queueTask := (queueTask s)\<lparr>closed := True\<rparr>, handler := CloseReader\<rparr>
      | CloseReader \<Rightarrow>
          (case rd_Close e of
             Some err \<Rightarrow> fatal ''closing perf event reader: %s'' s
           | None \<Rightarrow> s\<lparr>rd_closed := True, handler := HandlerDone\<rparr>)
      | _ \<Rightarrow> s)"

definition read_step :: "'v main_env \<Rightarrow> error + u8 list \<Rightarrow> proc \<Rightarrow> proc" where
  "read_step e r s =
     (if mainpc s \<noteq> AtRead then s
      else
        let res = (if rd_closed s then Inl ErrClosed else r);
            it = (case mode s of
                    Some RingBuffer \<Rightarrow> runRingBuf_iter res (logged s)
                  | Some PerfBuffer \<Rightarrow> runPerf_iter res (logged s)
                  | None \<Rightarrow> (Continue, logged s));
            s1 = s\<lparr>logged := snd it\<rparr>
        in case fst it of
             Continue \<Rightarrow> s1
           | Return \<Rightarrow> main_returns e s1
           | Send event \<Rightarrow> s1\<lparr>mainpc := AtSend event\<rparr>)"

definition send_step :: "'v main_env \<Rightarrow> proc \<Rightarrow> proc" where
  "send_step e s =
     (case mainpc s of
        AtSend event \<Rightarrow>
          if closed (queueTask s) then main_panics e s
          else if length (buf (queueTask s)) < queue_cap
          then s\<lparr>queueTask := (queueTask s)\<lparr>buf := buf (queueTask s) @ [event]\<rparr>, mainpc := AtRead\<rparr>
          else s
      | _ \<Rightarrow> s)"

text \<open>
  The consumer goroutine, \<^verbatim>\<open>for task := range queueTask\<close>: it takes the first task and
  passes \<^verbatim>\<open>task.Data[:task.DataLen]\<close> on. The slice of the 4000-byte array panics when
  \<^verbatim>\<open>DataLen\<close> is above 4000; a panic outside the main goroutine ends the process with
  status 2, and the deferred calls of \<^verbatim>\<open>main\<close> do not run.
\<close>

definition consumer_panics :: "proc \<Rightarrow> proc" where
  "consumer_panics s =
     s\<lparr>logged := logged s @ [''panic: runtime error: slice bounds out of range''],
       status := Exited 2\<rparr>"

definition consume_step :: "proc \<Rightarrow> proc" where
  "consume_step s =
     (case buf (queueTask s) of
        [] \<Rightarrow> s
      | task # rest \<Rightarrow>
          let s1 = s\<lparr>queueTask := (queueTask s)\<lparr>buf := rest\<rparr>\<rparr>
          in if unat (DataLen task) > MAX_DATA_SIZE then consumer_panics s1 else s1)"

definition step :: "'v main_env \<Rightarrow> action \<Rightarrow> proc \<Rightarrow> proc" where
  "step e a s =
     (if status s \<noteq> Running then s
      else case a of
             Signal \<Rightarrow> s\<lparr>stopper := True\<rparr>
           | Handler \<Rightarrow> handler_step e s
           | Read r \<Rightarrow> read_step e r s
           | SendTask \<Rightarrow> send_step e s
           | Consume \<Rightarrow> consume_step s)"

fun run :: "'v main_env \<Rightarrow> action list \<Rightarrow> proc \<Rightarrow> proc" where
  "run e [] s = s"
| "run e (a # as) s = run e as (step e a s)"

text \<open>The process before \<^verbatim>\<open>main\<close> runs, on the kernel tables \<open>k\<close>.\<close>

definition proc0 :: "tc_state \<Rightarrow> proc" where
  "proc0 k = \<lparr>mode = None, tc = k, logged = [], status = Running,
              defers_main = [], defers_run = [],
              queueTask = \<lparr>buf = [], closed = False\<rparr>, rd_closed = False, stopper = False,
              handler = NotStarted, mainpc = Startup\<rparr>"

definition main :: "'v::linorder main_env \<Rightarrow> tc_state \<Rightarrow> action list \<Rightarrow> proc" where
  "main e k sched =
     (case main_select e of
        Inl msg \<Rightarrow> fatal msg (proc0 k)
      | Inr (m, iface) \<Rightarrow>
          run e sched (start m e iface ((proc0 k)\<lparr>mode := Some m, logged := banner\<rparr>)))"

subsection \<open>Auxiliary notions for the teardown\<close>

text \<open>
  \<open>infIngress\<close> and \<open>infEgress\<close> are the filters that the two calls of \<^verbatim>\<open>attachTC\<close> in
  \<^verbatim>\<open>main\<close> return when they succeed, the arguments of the two deferred deletions.
\<close>

definition infIngress :: "'v main_env \<Rightarrow> LinkAttrs \<Rightarrow> BpfFilter" where
  "infIngress e iface =
     \<lparr>LinkIndex = Index iface, Parent = HANDLE_MIN_INGRESS, Handle = 1,
      Protocol = ETH_P_ALL, Priority = 1, Fd = IngressClsFunc e,
      FilterName = ''classifier/ingress'' @ ''-'' @ Name iface, DirectAction = True\<rparr>"

definition infEgress :: "'v main_env \<Rightarrow> LinkAttrs \<Rightarrow> BpfFilter" where
  "infEgress e iface =
     \<lparr>LinkIndex = Index iface, Parent = HANDLE_MIN_EGRESS, Handle = 1,
      Protocol = ETH_P_ALL, Priority = 1, Fd = EgressClsFunc e,
      FilterName = ''classifier/egress'' @ ''-'' @ Name iface, DirectAction = True\<rparr>"

text \<open>
  \<open>armed fi fe s\<close>: the deferred calls of \<^verbatim>\<open>main\<close> end with the deletion of the egress
  filter \<open>fe\<close>, the deletion of the ingress filter \<open>fi\<close> and the closing of the objects.
  \<open>clean e fi fe s\<close>: each of the two filters whose deletion the kernel accepts is gone
  from the tables. \<open>obs s\<close>: the process without the kernel tables.
\<close>

definition armed :: "BpfFilter \<Rightarrow> BpfFilter \<Rightarrow> proc \<Rightarrow> bool" where
  "armed fi fe s =
     (\<exists>pre. defers_main s = pre @ [Defer_FilterDel fe, Defer_FilterDel fi, Defer_objs_Close])"

definition clean :: "'v main_env \<Rightarrow> BpfFilter \<Rightarrow> BpfFilter \<Rightarrow> proc \<Rightarrow> bool" where
  "clean e fi fe s =
     ((FilterDel_err e fi = None \<longrightarrow>
         (\<forall>f \<in> set (filters (tc s)). filter_key f \<noteq> filter_key fi))
    \<and> (FilterDel_err e fe = None \<longrightarrow>
         (\<forall>f \<in> set (filters (tc s)). filter_key f \<noteq> filter_key fe)))"

definition obs ::
  "proc \<Rightarrow> TransportMode option \<times> string list \<times> status \<times> deferred list \<times> deferred list
           \<times> chan \<times> bool \<times> bool \<times> handler_pc \<times> main_pc" where
  "obs s = (mode s, logged s, status s, defers_main s, defers_run s, queueTask s, rd_closed s,
            stopper s, handler s, mainpc s)"

subsection \<open>Concrete environments\<close>

text \<open>
  The loopback interface and empty kernel tables; an environment in which every call
  succeeds, on a kernel above both thresholds (versions as numbers); one in which the
  database cannot be opened; one in which closing the reader fails; one in which the
  deletion of the egress filter fails, one in which every filter deletion fails; a raw
  sample of the size of an event, and one whose length field says 4001; and the schedule
  of an orderly shutdown.
\<close>

definition iface_lo :: LinkAttrs where
  "iface_lo = \<lparr>Index = 1, Name = ''lo''\<rparr>"

definition tc_empty :: tc_state where
  "tc_empty = \<lparr>qdiscs = [], filters = []\<rparr>"

definition env_ok :: "nat main_env" where
  "env_ok = \<lparr>InterfaceName = ''lo'', InterfaceByName = Inr iface_lo, GetKernelVersion = Inr 600,
             minKernelVer = 415, maxKernelVer = 508,
             loadObjects = None, IngressClsFunc = 7, EgressClsFunc = 8, LinkByIndex = None,
             attach_ingress = (None, None), attach_egress = (None, None),
             NewReader = None, OpenFile = None, rd_Close = None,
             FilterDel_err = (\<lambda>_. None)\<rparr>"

definition raw_ok :: "u8 list" where
  "raw_ok = replicate event_size 0"

definition raw_long :: "u8 list" where
  "raw_long = replicate (4 + MAX_DATA_SIZE) 0 @ [0xA1, 0x0F, 0, 0]"

definition sched_shutdown :: "action list" where
  "sched_shutdown = [Signal, Handler, Handler, Handler, Read (Inl (New ''interrupted''))]"

definition env_OpenFile_fails :: "nat main_env" where
  "env_OpenFile_fails = env_ok\<lparr>OpenFile := Some (New ''resource temporarily unavailable'')\<rparr>"

definition env_rd_Close_fails :: "nat main_env" where
  "env_rd_Close_fails = env_ok\<lparr>rd_Close := Some (New ''bad file descriptor'')\<rparr>"

definition env_egress_busy :: "nat main_env" where
  "env_egress_busy =
     env_ok\<lparr>FilterDel_err :=
       (\<lambda>f. if Parent f = HANDLE_MIN_EGRESS then Some (New ''device or resource busy'') else None)\<rparr>"

definition env_FilterDel_fails :: "nat main_env" where
  "env_FilterDel_fails = env_ok\<lparr>FilterDel_err := (\<lambda>_. Some (New ''device or resource busy''))\<rparr>"

definition ingress_lo :: BpfFilter where
  "ingress_lo = \<lparr>LinkIndex = 1, Parent = HANDLE_MIN_INGRESS, Handle = 1,
                  Protocol = ETH_P_ALL, Priority = 1, Fd = 7,
                  FilterName = ''classifier/ingress-lo'', DirectAction = True\<rparr>"

definition egress_lo :: BpfFilter where
  "egress_lo = \<lparr>LinkIndex = 1, Parent = HANDLE_MIN_EGRESS, Handle = 1,
                 Protocol = ETH_P_ALL, Priority = 1, Fd = 8,
                 FilterName = ''classifier/egress-lo'', DirectAction = True\<rparr>"

section \<open>Properties of the capture probe\<close>

subsection \<open>The copy loop\<close>

lemma copy_loop_frame:
  "http_events (copy_loop i c p pkt ev s) = http_events s
   \<and> calls (copy_loop i c p pkt ev s) = calls s
   \<and> (\<forall>q. q \<noteq> ev \<longrightarrow> mem (copy_loop i c p pkt ev s) q = mem s q)
   \<and> type (mem (copy_loop i c p pkt ev s) ev) = type (mem s ev)
   \<and> data_len (mem (copy_loop i c p pkt ev s) ev) = data_len (mem s ev)
   \<and> length (data (mem (copy_loop i c p pkt ev s) ev)) = length (data (mem s ev))"
proof (induction i c p pkt ev s rule: copy_loop.induct)
  case (1 i cursor name_pos pkt event s)
  show ?case
  proof (cases "i < MAX_DATA_SIZE \<and> \<not> cursor + 1 > length pkt")
    case True
    with 1 show ?thesis
      by (subst (1 2 3 4 5 6) copy_loop.simps) (simp add: set_data_def)
  next
    case False
    then show ?thesis by (subst (1 2 3 4 5 6) copy_loop.simps) auto
  qed
qed

lemma copy_loop_nth:
  "j < length (data (mem s ev)) \<Longrightarrow>
   data (mem (copy_loop i c p pkt ev s) ev) ! j =
     (if p \<le> j \<and> j < p + min (MAX_DATA_SIZE - i) (length pkt - c)
      then pkt ! (c + (j - p)) else data (mem s ev) ! j)"
proof (induction i c p pkt ev s rule: copy_loop.induct)
  case (1 i cursor name_pos pkt event s)
  show ?case
  proof (cases "i < MAX_DATA_SIZE \<and> \<not> cursor + 1 > length pkt")
    case True
    have len: "j < length (data (mem (set_data event name_pos (pkt ! cursor) s) event))"
      using 1(2) by (simp add: set_data_def)
    have step: "copy_loop i cursor name_pos pkt event s =
        copy_loop (i + 1) (cursor + 1) (name_pos + 1) pkt event
          (set_data event name_pos (pkt ! cursor) s)"
      using True by (subst copy_loop.simps) simp
    have ar: "Suc name_pos \<le> j \<Longrightarrow> Suc (cursor + j - Suc name_pos) = cursor + j - name_pos"
      by arith
    show ?thesis
      unfolding step using 1(1)[OF _ _ len] True 1(2)
      by (auto simp: set_data_def nth_list_update ar)
  next
    case False
    then show ?thesis by (subst copy_loop.simps) auto
  qed
qed

lemma copy_loop_take:
  assumes "length (data (mem s ev)) = MAX_DATA_SIZE"
  shows "take (min (length pkt) MAX_DATA_SIZE) (data (mem (copy_loop 0 0 0 pkt ev s) ev))
       = take (min (length pkt) MAX_DATA_SIZE) pkt"
proof (rule nth_take_lemma)
  show "min (length pkt) MAX_DATA_SIZE \<le> length (data (mem (copy_loop 0 0 0 pkt ev s) ev))"
    using assms by (simp add: copy_loop_frame)
  show "min (length pkt) MAX_DATA_SIZE \<le> length pkt" by simp
  fix j
  show "j < min (length pkt) MAX_DATA_SIZE \<longrightarrow> data (mem (copy_loop 0 0 0 pkt ev s) ev) ! j = pkt ! j"
    using assms by (simp add: copy_loop_nth)
qed

lemma data_len_value:
  assumes "n < 2 ^ 32"
  shows "unat (if (of_nat n :: u32) < of_nat MAX_DATA_SIZE then of_nat n else of_nat MAX_DATA_SIZE :: u32)
       = min n MAX_DATA_SIZE"
  using assms by (auto simp: word_less_nat_alt unat_of_nat MAX_DATA_SIZE_def)

lemma poke_set_data: "q \<noteq> p \<Longrightarrow> set_data p k b (poke q x s) = poke q x (set_data p k b s)"
  by (simp add: poke_def set_data_def fun_upd_twist)

lemma poke_set_type: "q \<noteq> p \<Longrightarrow> set_type p t (poke q x s) = poke q x (set_type p t s)"
  by (simp add: poke_def set_type_def fun_upd_twist)

lemma poke_set_data_len: "q \<noteq> p \<Longrightarrow> set_data_len p n (poke q x s) = poke q x (set_data_len p n s)"
  by (simp add: poke_def set_data_len_def fun_upd_twist)

lemma poke_submit: "q \<noteq> p \<Longrightarrow> bpf_ringbuf_submit p (poke q x s) = poke q x (bpf_ringbuf_submit p s)"
  by (simp add: poke_def bpf_ringbuf_submit_def)

lemma poke_calls: "(poke q x s)\<lparr>calls := c\<rparr> = poke q x (s\<lparr>calls := c\<rparr>)"
  by (simp add: poke_def)

lemma poke_copy_loop:
  "q \<noteq> ev \<Longrightarrow> copy_loop i c p pkt ev (poke q x s) = poke q x (copy_loop i c p pkt ev s)"
proof (induction i c p pkt ev s rule: copy_loop.induct)
  case (1 i cursor name_pos pkt event s)
  show ?case
  proof (cases "i < MAX_DATA_SIZE \<and> \<not> cursor + 1 > length pkt")
    case True
    have step: "\<And>S. copy_loop i cursor name_pos pkt event S =
        copy_loop (i + 1) (cursor + 1) (name_pos + 1) pkt event
          (set_data event name_pos (pkt ! cursor) S)"
      using True by (subst copy_loop.simps) simp
    show ?thesis
      unfolding step poke_set_data [OF 1(2)]
      using True 1(2) by (intro 1(1)) auto
  next
    case False
    then show ?thesis by (subst (1 2) copy_loop.simps) auto
  qed
qed

subsection \<open>The filters\<close>

lemma bpf_htons_word_cat: "bpf_htons (word_cat (a::u8) (b::u8)) = word_cat b a"
  by (auto simp add: bpf_htons_def bit_eq_iff bit_word_cat_iff bit_ucast_iff bit_drop_bit_eq)

lemma bpf_htons_involution: "bpf_htons (bpf_htons x) = x"
  by (auto simp add: bpf_htons_def bit_eq_iff bit_word_cat_iff bit_ucast_iff bit_drop_bit_eq
      dest: bit_imp_le_length)

lemma eth_h_proto_ethertype: "eth_h_proto h pkt = bpf_htons (ethertype h pkt)"
  by (simp add: eth_h_proto_def load16_def ethertype_def bpf_htons_word_cat)

lemma h_proto_check_iff:
  "eth_h_proto h pkt = bpf_htons ETH_P_IP \<longleftrightarrow> ethertype h pkt = ETH_P_IP"
  by (metis eth_h_proto_ethertype bpf_htons_involution)

lemma len_short_iff:
  "(of_nat n :: u32) \<le> of_nat HTTP_DATA_MIN_SIZE \<longleftrightarrow> n mod 2 ^ 32 \<le> HTTP_DATA_MIN_SIZE"
  by (simp add: word_le_nat_alt unat_of_nat HTTP_DATA_MIN_SIZE_def)

text \<open>The four outcomes of a run.\<close>

lemma capture_packets_filtered:
  assumes "length (frame_bytes e skb) < ETH_HLEN h + IP_HLEN h + TCP_HLEN h
         \<or> ethertype h (frame_bytes e skb) \<noteq> ETH_P_IP
         \<or> iph_protocol h (frame_bytes e skb) \<noteq> IPPROTO_TCP h
         \<or> length (frame_bytes e skb) mod 2 ^ 32 \<le> HTTP_DATA_MIN_SIZE"
  shows "capture_packets h e skb t s = (TC_ACT_OK, s)"
  using assms
  by (auto simp: capture_packets_def Let_def frame_bytes_def h_proto_check_iff len_short_iff)

lemma capture_packets_passed:
  assumes "\<not> length (frame_bytes e skb) < ETH_HLEN h + IP_HLEN h + TCP_HLEN h"
      and "ethertype h (frame_bytes e skb) = ETH_P_IP"
      and "iph_protocol h (frame_bytes e skb) = IPPROTO_TCP h"
      and "\<not> length (frame_bytes e skb) mod 2 ^ 32 \<le> HTTP_DATA_MIN_SIZE"
  shows "capture_packets h e skb t s =
     (if \<not> lookup_ok e then (TC_ACT_OK, s\<lparr>calls := calls s @ [Map_lookup_elem None]\<rparr>)
      else case reserve_at e of
        None \<Rightarrow> (TC_ACT_OK, s\<lparr>calls := calls s @ [Map_lookup_elem (Some Heap_slot), Ringbuf_reserve None]\<rparr>)
      | Some n \<Rightarrow> (TC_ACT_OK,
          bpf_ringbuf_submit (Ring_record n)
            (copy_loop 0 0 0 (frame_bytes e skb) (Ring_record n)
              (set_data_len (Ring_record n)
                 (if (of_nat (length (frame_bytes e skb)) :: u32) < of_nat MAX_DATA_SIZE
                  then of_nat (length (frame_bytes e skb)) else of_nat MAX_DATA_SIZE)
                 (set_type (Ring_record n) t
                    (s\<lparr>calls := calls s @ [Map_lookup_elem (Some Heap_slot),
                                             Ringbuf_reserve (Some (Ring_record n))]\<rparr>))))))"
  using assms
  by (auto simp: capture_packets_def Let_def frame_bytes_def h_proto_check_iff len_short_iff
      create_http_data_event_def bpf_map_lookup_elem_def bpf_ringbuf_reserve_def TC_ACT_OK_def
      split: option.split)

subsection \<open>Facts about the concrete runs\<close>

lemma linux_hdrs_simps:
  "ETH_HLEN linux_hdrs = 14" "IP_HLEN linux_hdrs = 20" "TCP_HLEN linux_hdrs = 20"
  "h_proto_off linux_hdrs = 12" "protocol_off linux_hdrs = 9" "IPPROTO_TCP linux_hdrs = 6"
  by (simp_all add: linux_hdrs_def)

lemma frame200_facts:
  "length frame200 = 200" "ethertype linux_hdrs frame200 = ETH_P_IP"
  "iph_protocol linux_hdrs frame200 = IPPROTO_TCP linux_hdrs"
  by code_simp+

lemma frame50_facts: "length frame50 = 50"
  by code_simp

lemma frame_arp_facts: "ethertype linux_hdrs frame_arp \<noteq> ETH_P_IP"
  by code_simp

lemma frame200_run:
  "capture_packets linux_hdrs helpers_ok \<lparr>linear = frame200, paged = []\<rparr> t kernel0 =
     (TC_ACT_OK,
      bpf_ringbuf_submit (Ring_record 0)
        (copy_loop 0 0 0 frame200 (Ring_record 0)
           (set_data_len (Ring_record 0) 200
              (set_type (Ring_record 0) t
                 (kernel0\<lparr>calls := [Map_lookup_elem (Some Heap_slot),
                                 Ringbuf_reserve (Some (Ring_record 0))]\<rparr>)))))"
  by (simp add: capture_packets_def Let_def bpf_skb_pull_data_def helpers_ok_def kernel0_def
      h_proto_check_iff frame200_facts linux_hdrs_simps(1-3)
      create_http_data_event_def bpf_map_lookup_elem_def bpf_ringbuf_reserve_def
      HTTP_DATA_MIN_SIZE_def MAX_DATA_SIZE_def TC_ACT_OK_def)

text \<open>
  C4. The probe returns the pass-through action \<^verbatim>\<open>TC_ACT_OK\<close>, which is 0, whatever the
  packet, the hook and the answers of the kernel helpers are: on the bounds-check,
  non-IPv4, non-TCP, short-frame, scratch-lookup and reservation failures as well as
  after a capture. The result is therefore never the shot, stolen or redirect code.
\<close>

theorem capture_packets_always_TC_ACT_OK:
  "fst (capture_packets h e skb t s) = TC_ACT_OK
   \<and> fst (egress_cls_func h e skb s) = 0
   \<and> fst (ingress_cls_func h e skb s) = 0
   \<and> fst (capture_packets h e skb t s) \<notin> {TC_ACT_SHOT, TC_ACT_STOLEN, TC_ACT_REDIRECT, TC_ACT_UNSPEC}"
  by (simp add: capture_packets_def egress_cls_func_def ingress_cls_func_def Let_def
      TC_ACT_OK_def TC_ACT_SHOT_def TC_ACT_STOLEN_def TC_ACT_REDIRECT_def TC_ACT_UNSPEC_def
      split: prod.split option.split)

text \<open>
  C2. For every frame that produces an event (the frame's length fits the 32-bit
  \<^verbatim>\<open>len\<close>, and the cells hold 4000-byte arrays): exactly one event is appended, its
  \<^verbatim>\<open>data_len\<close> is the minimum of the frame's length and 4000, the first \<^verbatim>\<open>data_len\<close>
  bytes of its \<^verbatim>\<open>data\<close> are the first \<^verbatim>\<open>data_len\<close> bytes of the frame, and its
  \<^verbatim>\<open>type\<close> is the hook's: the egress classifier passes \<open>Egress\<close>, the ingress
  classifier \<open>Ingress\<close>, and the first four bytes of the record encode them as 0 and 1.
\<close>

theorem captured_event_faithful:
  assumes run: "capture_packets h e skb t s = (act, s')"
      and produced: "http_events s' \<noteq> http_events s"
      and len: "length (frame_bytes e skb) < 2 ^ 32"
      and wf: "\<forall>p. event_wf (mem s p)"
  shows "(\<exists>ev. http_events s' = http_events s @ [ev]
            \<and> unat (data_len ev) = min (length (frame_bytes e skb)) MAX_DATA_SIZE
            \<and> take (unat (data_len ev)) (data ev) = take (unat (data_len ev)) (frame_bytes e skb)
            \<and> type ev = t
            \<and> take 4 (wire_record ev) = le32 (tc_type_code t))
       \<and> egress_cls_func h e skb s = capture_packets h e skb Egress s
       \<and> ingress_cls_func h e skb s = capture_packets h e skb Ingress s
       \<and> le32 (tc_type_code Egress) = [0, 0, 0, 0]
       \<and> le32 (tc_type_code Ingress) = [1, 0, 0, 0]"
proof -
  let ?pkt = "frame_bytes e skb"
  have pass: "\<not> (length ?pkt < ETH_HLEN h + IP_HLEN h + TCP_HLEN h
         \<or> ethertype h ?pkt \<noteq> ETH_P_IP
         \<or> iph_protocol h ?pkt \<noteq> IPPROTO_TCP h
         \<or> length ?pkt mod 2 ^ 32 \<le> HTTP_DATA_MIN_SIZE)"
    using capture_packets_filtered[of e skb h t s] run produced by auto
  from pass have eq: "capture_packets h e skb t s = (if \<not> lookup_ok e then (TC_ACT_OK, s\<lparr>calls := calls s @ [Map_lookup_elem None]\<rparr>)
      else case reserve_at e of
        None \<Rightarrow> (TC_ACT_OK, s\<lparr>calls := calls s @ [Map_lookup_elem (Some Heap_slot), Ringbuf_reserve None]\<rparr>)
      | Some n \<Rightarrow> (TC_ACT_OK,
          bpf_ringbuf_submit (Ring_record n)
            (copy_loop 0 0 0 ?pkt (Ring_record n)
              (set_data_len (Ring_record n)
                 (if (of_nat (length ?pkt) :: u32) < of_nat MAX_DATA_SIZE
                  then of_nat (length ?pkt) else of_nat MAX_DATA_SIZE)
                 (set_type (Ring_record n) t
                    (s\<lparr>calls := calls s @ [Map_lookup_elem (Some Heap_slot),
                                             Ringbuf_reserve (Some (Ring_record n))]\<rparr>))))))"
    by (intro capture_packets_passed) auto
  from eq run produced obtain n where n: "reserve_at e = Some n" and lk: "lookup_ok e"
    by (cases "reserve_at e") (auto split: if_splits)
  let ?dl = "if (of_nat (length ?pkt) :: u32) < of_nat MAX_DATA_SIZE
                  then of_nat (length ?pkt) else of_nat MAX_DATA_SIZE :: u32"
  let ?s4 = "set_data_len (Ring_record n) ?dl
                 (set_type (Ring_record n) t
                    (s\<lparr>calls := calls s @ [Map_lookup_elem (Some Heap_slot),
                                             Ringbuf_reserve (Some (Ring_record n))]\<rparr>))"
  let ?s5 = "copy_loop 0 0 0 ?pkt (Ring_record n) ?s4"
  let ?ev = "mem ?s5 (Ring_record n)"
  have s': "s' = bpf_ringbuf_submit (Ring_record n) ?s5"
    using eq run n lk by simp
  have l4: "length (data (mem ?s4 (Ring_record n))) = MAX_DATA_SIZE"
    using wf by (simp add: set_data_len_def set_type_def event_wf_def)
  have ev_events: "http_events s' = http_events s @ [?ev]"
    by (simp add: s' bpf_ringbuf_submit_def copy_loop_frame set_data_len_def set_type_def)
  have ev_len: "data_len ?ev = ?dl"
    by (simp add: copy_loop_frame set_data_len_def set_type_def)
  have ev_type: "type ?ev = t"
    by (simp add: copy_loop_frame set_data_len_def set_type_def)
  have u: "unat (data_len ?ev) = min (length ?pkt) MAX_DATA_SIZE"
    unfolding ev_len using len by (rule data_len_value)
  have tk: "take (unat (data_len ?ev)) (data ?ev) = take (unat (data_len ?ev)) ?pkt"
    unfolding u using l4 by (rule copy_loop_take)
  have w: "take 4 (wire_record ?ev) = le32 (tc_type_code t)"
    by (simp add: wire_record_def le32_def ev_type)
  have hooks: "egress_cls_func h e skb s = capture_packets h e skb Egress s"
      "ingress_cls_func h e skb s = capture_packets h e skb Ingress s"
      "le32 (tc_type_code Egress) = [0, 0, 0, 0]" "le32 (tc_type_code Ingress) = [1, 0, 0, 0]"
    by (simp_all add: egress_cls_func_def ingress_cls_func_def le32_def)
  show ?thesis
    using ev_events u tk ev_type w hooks by blast
qed

theorem captured_event_faithful_witness:
  "\<exists>ev. http_events (snd (ingress_cls_func linux_hdrs helpers_ok \<lparr>linear = frame200, paged = []\<rparr> kernel0)) = [ev]
      \<and> unat (data_len ev) = 200 \<and> take 200 (data ev) = frame200 \<and> type ev = Ingress
      \<and> take 4 (wire_record ev) = [1, 0, 0, 0]"
proof -
  let ?skb = "\<lparr>linear = frame200, paged = []\<rparr>"
  let ?r = "capture_packets linux_hdrs helpers_ok ?skb Ingress kernel0"
  have fb: "frame_bytes helpers_ok ?skb = frame200"
    by (simp add: frame_bytes_def bpf_skb_pull_data_def helpers_ok_def)
  have h0: "http_events kernel0 = []" by (simp add: kernel0_def)
  have run: "?r = (fst ?r, snd ?r)" by simp
  have produced: "http_events (snd ?r) \<noteq> http_events kernel0"
    by (simp add: frame200_run bpf_ringbuf_submit_def h0)
  have len: "length (frame_bytes helpers_ok ?skb) < 2 ^ 32"
    by (simp add: fb frame200_facts)
  have wf: "\<forall>p. event_wf (mem kernel0 p)"
    by (simp add: event_wf_def kernel0_def)
  from captured_event_faithful [OF run produced len wf]
  show ?thesis
    by (auto simp add: fb frame200_facts MAX_DATA_SIZE_def h0)
qed

text \<open>
  C3. A frame that fails one of the filters (shorter than the Ethernet, IPv4 and TCP
  headers together, Ethertype other than IPv4, IP protocol other than TCP, or at most 91
  bytes long) is passed through and leaves the kernel state as it was: no event is
  produced, so an event is produced only for a frame that passes all four.
\<close>

theorem no_event_unless_filters_pass:
  assumes "length (frame_bytes e skb) < ETH_HLEN h + IP_HLEN h + TCP_HLEN h
         \<or> ethertype h (frame_bytes e skb) \<noteq> ETH_P_IP
         \<or> iph_protocol h (frame_bytes e skb) \<noteq> IPPROTO_TCP h
         \<or> length (frame_bytes e skb) \<le> HTTP_DATA_MIN_SIZE"
  shows "capture_packets h e skb t s = (TC_ACT_OK, s)
       \<and> http_events (snd (capture_packets h e skb t s)) = http_events s"
proof -
  have "length (frame_bytes e skb) \<le> HTTP_DATA_MIN_SIZE
        \<Longrightarrow> length (frame_bytes e skb) mod 2 ^ 32 \<le> HTTP_DATA_MIN_SIZE"
    by (simp add: HTTP_DATA_MIN_SIZE_def)
  with assms have "capture_packets h e skb t s = (TC_ACT_OK, s)"
    by (intro capture_packets_filtered) blast
  then show ?thesis by simp
qed

theorem no_event_unless_filters_pass_witness:
  "capture_packets linux_hdrs helpers_ok \<lparr>linear = frame50, paged = []\<rparr> Egress kernel0 = (TC_ACT_OK, kernel0)
   \<and> capture_packets linux_hdrs helpers_ok \<lparr>linear = frame_arp, paged = []\<rparr> Ingress kernel0 = (TC_ACT_OK, kernel0)"
proof -
  have a: "frame_bytes helpers_ok \<lparr>linear = frame50, paged = []\<rparr> = frame50"
    and b: "frame_bytes helpers_ok \<lparr>linear = frame_arp, paged = []\<rparr> = frame_arp"
    by (simp_all add: frame_bytes_def bpf_skb_pull_data_def helpers_ok_def)
  have "length (frame_bytes helpers_ok \<lparr>linear = frame50, paged = []\<rparr>) \<le> HTTP_DATA_MIN_SIZE"
    by (simp add: a frame50_facts HTTP_DATA_MIN_SIZE_def)
  moreover have "ethertype linux_hdrs (frame_bytes helpers_ok \<lparr>linear = frame_arp, paged = []\<rparr>) \<noteq> ETH_P_IP"
    by (simp add: b frame_arp_facts)
  ultimately show ?thesis
    using no_event_unless_filters_pass [of helpers_ok "\<lparr>linear = frame50, paged = []\<rparr>" linux_hdrs Egress kernel0]
      no_event_unless_filters_pass [of helpers_ok "\<lparr>linear = frame_arp, paged = []\<rparr>" linux_hdrs Ingress kernel0]
    by simp
qed

text \<open>
  C9. The pointer obtained from the per-CPU array is replaced by the reservation before
  any field is written: a run leaves the array's slot as it was, every cell it changes is
  the reserved ring-buffer record, the event it submits is that record, and the slot's
  content has no influence on the run (overwriting it beforehand changes nothing else).
\<close>

theorem scratch_never_written:
  assumes run: "capture_packets h e skb t s = (act, s')"
  shows "mem s' Heap_slot = mem s Heap_slot
       \<and> (\<forall>q. mem s' q \<noteq> mem s q \<longrightarrow> (\<exists>n. reserve_at e = Some n \<and> q = Ring_record n))
       \<and> (http_events s' \<noteq> http_events s \<longrightarrow>
            (\<exists>n. reserve_at e = Some n \<and> http_events s' = http_events s @ [mem s' (Ring_record n)]))
       \<and> (\<forall>x. capture_packets h e skb t (s\<lparr>mem := (mem s)(Heap_slot := x)\<rparr>)
              = (act, s'\<lparr>mem := (mem s')(Heap_slot := x)\<rparr>))"
proof (cases "length (frame_bytes e skb) < ETH_HLEN h + IP_HLEN h + TCP_HLEN h
         \<or> ethertype h (frame_bytes e skb) \<noteq> ETH_P_IP
         \<or> iph_protocol h (frame_bytes e skb) \<noteq> IPPROTO_TCP h
         \<or> length (frame_bytes e skb) mod 2 ^ 32 \<le> HTTP_DATA_MIN_SIZE")
  case True
  from capture_packets_filtered [OF True] run show ?thesis by simp
next
  case False
  then have p: "\<not> length (frame_bytes e skb) < ETH_HLEN h + IP_HLEN h + TCP_HLEN h"
      "ethertype h (frame_bytes e skb) = ETH_P_IP"
      "iph_protocol h (frame_bytes e skb) = IPPROTO_TCP h"
      "\<not> length (frame_bytes e skb) mod 2 ^ 32 \<le> HTTP_DATA_MIN_SIZE"
    by auto
  note eq = capture_packets_passed [OF p]
  show ?thesis
  proof (cases "lookup_ok e")
    case False
    with eq run show ?thesis by auto
  next
    case lk: True
    show ?thesis
    proof (cases "reserve_at e")
      case None
      with eq run lk show ?thesis by auto
    next
      case (Some n)
      let ?p = "Ring_record n"
      let ?dl = "if (of_nat (length (frame_bytes e skb)) :: u32) < of_nat MAX_DATA_SIZE
                 then of_nat (length (frame_bytes e skb)) else of_nat MAX_DATA_SIZE :: u32"
      let ?cs = "calls s @ [Map_lookup_elem (Some Heap_slot), Ringbuf_reserve (Some ?p)]"
      let ?s5 = "copy_loop 0 0 0 (frame_bytes e skb) ?p
                   (set_data_len ?p ?dl (set_type ?p t (s\<lparr>calls := ?cs\<rparr>)))"
      have act: "act = TC_ACT_OK" and s': "s' = bpf_ringbuf_submit ?p ?s5"
        using eq [of t s] run lk Some by simp_all
      have other: "\<And>q. q \<noteq> ?p \<Longrightarrow> mem s' q = mem s q"
        by (simp add: s' bpf_ringbuf_submit_def copy_loop_frame set_data_len_def set_type_def)
      have ev: "http_events s' = http_events s @ [mem s' ?p]"
        by (simp add: s' bpf_ringbuf_submit_def copy_loop_frame set_data_len_def set_type_def)
      have dead: "capture_packets h e skb t (poke Heap_slot x s) = (act, poke Heap_slot x s')" for x
        unfolding eq s' act using lk Some
        by (simp add: poke_calls poke_set_type poke_set_data_len poke_copy_loop poke_submit
            del: One_nat_def) (simp add: poke_def)
      show ?thesis
        using other [of Heap_slot] other ev dead Some
        by (auto simp: poke_def)
    qed
  qed
qed

theorem scratch_never_written_witness:
  "mem (snd (capture_packets linux_hdrs helpers_ok \<lparr>linear = frame200, paged = []\<rparr> Ingress kernel0)) Heap_slot
     = \<lparr>type = Egress, data = replicate MAX_DATA_SIZE 0, data_len = 0\<rparr>
   \<and> http_events (snd (capture_packets linux_hdrs helpers_ok \<lparr>linear = frame200, paged = []\<rparr> Ingress kernel0))
     = [mem (snd (capture_packets linux_hdrs helpers_ok \<lparr>linear = frame200, paged = []\<rparr> Ingress kernel0)) (Ring_record 0)]"
proof -
  let ?r = "capture_packets linux_hdrs helpers_ok \<lparr>linear = frame200, paged = []\<rparr> Ingress kernel0"
  have run: "?r = (fst ?r, snd ?r)" by simp
  have h0: "http_events kernel0 = []" by (simp add: kernel0_def)
  have produced: "http_events (snd ?r) \<noteq> http_events kernel0"
    by (simp add: frame200_run bpf_ringbuf_submit_def h0)
  have res: "reserve_at helpers_ok = Some 0" by (simp add: helpers_ok_def)
  have m0: "mem kernel0 Heap_slot = \<lparr>type = Egress, data = replicate MAX_DATA_SIZE 0, data_len = 0\<rparr>"
    by (simp add: kernel0_def)
  from scratch_never_written [OF run] produced res show ?thesis
    by (simp add: h0 m0)
qed

text \<open>
  C10. The helper calls a run adds: whenever a reservation succeeds, the run ends with
  that reservation followed by its submission, the record is submitted exactly once and
  one event is appended; nothing is submitted that was not reserved, and nothing is
  discarded.
\<close>

theorem reservation_submitted_exactly_once:
  assumes run: "capture_packets h e skb t s = (act, s')"
  shows "\<exists>cs. calls s' = calls s @ cs
          \<and> (\<forall>p. Ringbuf_reserve (Some p) \<in> set cs \<longrightarrow>
                 count_list cs (Ringbuf_submit p) = 1
               \<and> (\<exists>pre. cs = pre @ [Ringbuf_reserve (Some p), Ringbuf_submit p])
               \<and> length (http_events s') = length (http_events s) + 1)
          \<and> (\<forall>p. Ringbuf_submit p \<in> set cs \<longrightarrow> Ringbuf_reserve (Some p) \<in> set cs)
          \<and> (\<forall>p. Ringbuf_discard p \<notin> set cs)"
proof (cases "length (frame_bytes e skb) < ETH_HLEN h + IP_HLEN h + TCP_HLEN h
         \<or> ethertype h (frame_bytes e skb) \<noteq> ETH_P_IP
         \<or> iph_protocol h (frame_bytes e skb) \<noteq> IPPROTO_TCP h
         \<or> length (frame_bytes e skb) mod 2 ^ 32 \<le> HTTP_DATA_MIN_SIZE")
  case True
  from capture_packets_filtered [OF True] run have "s' = s" by simp
  then show ?thesis by (intro exI [of _ "[]"]) simp
next
  case False
  then have p: "\<not> length (frame_bytes e skb) < ETH_HLEN h + IP_HLEN h + TCP_HLEN h"
      "ethertype h (frame_bytes e skb) = ETH_P_IP"
      "iph_protocol h (frame_bytes e skb) = IPPROTO_TCP h"
      "\<not> length (frame_bytes e skb) mod 2 ^ 32 \<le> HTTP_DATA_MIN_SIZE"
    by auto
  note eq = capture_packets_passed [OF p, of t s]
  show ?thesis
  proof (cases "lookup_ok e")
    case False
    with eq run have "calls s' = calls s @ [Map_lookup_elem None]" by auto
    then show ?thesis by (intro exI [of _ "[Map_lookup_elem None]"]) simp
  next
    case lk: True
    show ?thesis
    proof (cases "reserve_at e")
      case None
      with eq run lk
      have "calls s' = calls s @ [Map_lookup_elem (Some Heap_slot), Ringbuf_reserve None]"
        by auto
      then show ?thesis
        by (intro exI [of _ "[Map_lookup_elem (Some Heap_slot), Ringbuf_reserve None]"]) simp
    next
      case (Some n)
      let ?p = "Ring_record n"
      let ?cs = "[Map_lookup_elem (Some Heap_slot), Ringbuf_reserve (Some ?p), Ringbuf_submit ?p]"
      from eq run lk Some
      have c: "calls s' = calls s @ ?cs"
        and ev: "length (http_events s') = length (http_events s) + 1"
        by (auto simp: bpf_ringbuf_submit_def copy_loop_frame set_data_len_def set_type_def)
      have "?cs = [Map_lookup_elem (Some Heap_slot)] @ [Ringbuf_reserve (Some ?p), Ringbuf_submit ?p]"
        by simp
      then have pre: "\<exists>pre. ?cs = pre @ [Ringbuf_reserve (Some ?p), Ringbuf_submit ?p]"
        by blast
      show ?thesis
        using c ev pre by (intro exI [of _ ?cs]) auto
    qed
  qed
qed

theorem reservation_submitted_exactly_once_witness:
  "Ringbuf_reserve (Some (Ring_record 0))
     \<in> set (calls (snd (capture_packets linux_hdrs helpers_ok \<lparr>linear = frame200, paged = []\<rparr> Ingress kernel0)))
   \<and> count_list (calls (snd (capture_packets linux_hdrs helpers_ok \<lparr>linear = frame200, paged = []\<rparr> Ingress kernel0)))
        (Ringbuf_submit (Ring_record 0)) = 1
   \<and> length (http_events (snd (capture_packets linux_hdrs helpers_ok \<lparr>linear = frame200, paged = []\<rparr> Ingress kernel0))) = 1"
proof -
  let ?r = "capture_packets linux_hdrs helpers_ok \<lparr>linear = frame200, paged = []\<rparr> Ingress kernel0"
  have run: "?r = (fst ?r, snd ?r)" by simp
  have c0: "calls kernel0 = []" "http_events kernel0 = []" by (simp_all add: kernel0_def)
  have res: "Ringbuf_reserve (Some (Ring_record 0)) \<in> set (calls (snd ?r))"
    by (simp add: frame200_run bpf_ringbuf_submit_def copy_loop_frame set_data_len_def set_type_def)
  from reservation_submitted_exactly_once [OF run] obtain cs where
    cs: "calls (snd ?r) = calls kernel0 @ cs"
    and once: "\<forall>p. Ringbuf_reserve (Some p) \<in> set cs \<longrightarrow>
                 count_list cs (Ringbuf_submit p) = 1
               \<and> (\<exists>pre. cs = pre @ [Ringbuf_reserve (Some p), Ringbuf_submit p])
               \<and> length (http_events (snd ?r)) = length (http_events kernel0) + 1"
    by blast
  from cs c0 have "cs = calls (snd ?r)" by simp
  with once res c0 show ?thesis by auto
qed

section \<open>Properties of the userspace program\<close>

subsection \<open>Replacing in the kernel tables\<close>

lemma replace_by_idem: "replace_by key x (replace_by key x xs) = replace_by key x xs"
  by (induction xs) auto

lemma set_map_replace_by:
  "set (map key (replace_by key x xs)) = insert (key x) (set (map key xs))"
  by (induction xs) auto

lemma distinct_replace_by:
  "distinct (map key xs) \<Longrightarrow> distinct (map key (replace_by key x xs))"
proof (induction xs)
  case Nil
  then show ?case by simp
next
  case (Cons y ys)
  then show ?case
    using set_map_replace_by [of key x ys] by (auto simp del: set_map)
qed

lemma count_replace_by:
  "distinct (map key xs) \<Longrightarrow> length [y \<leftarrow> replace_by key x xs. key y = key x] = 1"
proof (induction xs)
  case Nil
  then show ?case by simp
next
  case (Cons y ys)
  show ?case
  proof (cases "key y = key x")
    case True
    with Cons.prems have "\<forall>z \<in> set ys. key z \<noteq> key x" by (metis distinct.simps(2) image_eqI list.simps(9) set_map)
    then have "[z \<leftarrow> ys. key z = key x] = []" by (simp add: filter_empty_conv)
    with True show ?thesis by simp
  next
    case False
    with Cons show ?thesis by simp
  qed
qed

lemma attachTC_success:
  assumes "attachTC errs link prog progName parent k = (Inr f, k')"
  shows "f = \<lparr>LinkIndex = Index link, Parent = parent, Handle = 1,
              Protocol = ETH_P_ALL, Priority = 1, Fd = prog,
              FilterName = progName @ ''-'' @ Name link, DirectAction = True\<rparr>
       \<and> qdiscs k' = replace_by qdisc_key
            \<lparr>QdiscLinkIndex = Index link, QdiscHandle = MakeHandle 0xffff 0,
             QdiscParent = HANDLE_CLSACT, QdiscType = ''clsact''\<rparr> (qdiscs k)
       \<and> filters k' = replace_by filter_key f (filters k)"
  using assms
  by (auto simp: attachTC_def replaceQdisc_def QdiscReplace_def FilterReplace_def Let_def
      split: option.splits)

lemma attachTC_wf:
  assumes "tc_wf k" and "attachTC errs link prog progName parent k = (r, k')"
  shows "tc_wf k'"
  using assms
  by (auto simp: attachTC_def replaceQdisc_def QdiscReplace_def FilterReplace_def Let_def tc_wf_def
      distinct_replace_by split: option.splits)

text \<open>
  C7. Attaching is idempotent: when \<^verbatim>\<open>attachTC\<close> succeeds twice in succession for the same
  interface, program and direction on well-formed kernel tables, the second call leaves
  the tables as the first left them and returns the same filter; the tables hold exactly
  one clsact queueing discipline for the interface and exactly one filter for the
  interface and direction (at the program's protocol, priority and handle).
\<close>

theorem attachTC_idempotent:
  assumes wf: "tc_wf k"
      and first: "attachTC errs1 link prog progName parent k = (Inr f1, k1)"
      and second: "attachTC errs2 link prog progName parent k1 = (Inr f2, k2)"
  shows "k2 = k1 \<and> f2 = f1
       \<and> length [q \<leftarrow> qdiscs k2. qdisc_key q = (Index link, HANDLE_CLSACT)] = 1
       \<and> length [f \<leftarrow> filters k2. filter_key f = (Index link, parent, ETH_P_ALL, 1, 1)] = 1
       \<and> tc_wf k2"
proof -
  let ?q = "\<lparr>QdiscLinkIndex = Index link, QdiscHandle = MakeHandle 0xffff 0,
             QdiscParent = HANDLE_CLSACT, QdiscType = ''clsact''\<rparr>"
  note a = attachTC_success [OF first] and b = attachTC_success [OF second]
  from a b have f: "f2 = f1" by simp
  have q: "qdiscs k2 = qdiscs k1" using a b by (simp add: replace_by_idem)
  have fl: "filters k2 = filters k1" using a b f by (simp add: replace_by_idem)
  have k: "k2 = k1" using q fl by simp
  have qk: "qdisc_key ?q = (Index link, HANDLE_CLSACT)" by (simp add: qdisc_key_def)
  have fk: "filter_key f1 = (Index link, parent, ETH_P_ALL, 1, 1)"
    using a by (simp add: filter_key_def)
  have c1: "length [x \<leftarrow> qdiscs k1. qdisc_key x = qdisc_key ?q] = 1"
    using a wf count_replace_by [of qdisc_key "qdiscs k" ?q] by (simp add: tc_wf_def)
  have c2: "length [x \<leftarrow> filters k1. filter_key x = filter_key f1] = 1"
    using a wf count_replace_by [of filter_key "filters k" f1] by (simp add: tc_wf_def)
  have w: "tc_wf k1" using wf first by (rule attachTC_wf)
  show ?thesis using f k c1 c2 w by (simp add: qk fk)
qed

theorem attachTC_idempotent_witness:
  "snd (attachTC (None, None) iface_lo 7 ''classifier/ingress'' HANDLE_MIN_INGRESS
          (snd (attachTC (None, None) iface_lo 7 ''classifier/ingress'' HANDLE_MIN_INGRESS tc_empty)))
     = snd (attachTC (None, None) iface_lo 7 ''classifier/ingress'' HANDLE_MIN_INGRESS tc_empty)
   \<and> length (filters (snd (attachTC (None, None) iface_lo 7 ''classifier/ingress'' HANDLE_MIN_INGRESS
          (snd (attachTC (None, None) iface_lo 7 ''classifier/ingress'' HANDLE_MIN_INGRESS tc_empty))))) = 1
   \<and> length (qdiscs (snd (attachTC (None, None) iface_lo 7 ''classifier/ingress'' HANDLE_MIN_INGRESS
          (snd (attachTC (None, None) iface_lo 7 ''classifier/ingress'' HANDLE_MIN_INGRESS tc_empty))))) = 1"
proof -
  let ?a = "attachTC (None, None) iface_lo 7 ''classifier/ingress'' HANDLE_MIN_INGRESS"
  let ?f = "\<lparr>LinkIndex = 1, Parent = HANDLE_MIN_INGRESS, Handle = 1,
              Protocol = ETH_P_ALL, Priority = 1, Fd = 7,
              FilterName = ''classifier/ingress-lo'', DirectAction = True\<rparr>"
  have wf: "tc_wf tc_empty" by (simp add: tc_wf_def tc_empty_def)
  have first: "?a tc_empty = (Inr ?f, snd (?a tc_empty))"
    by (simp add: attachTC_def replaceQdisc_def QdiscReplace_def FilterReplace_def Let_def
        iface_lo_def tc_empty_def)
  have second: "?a (snd (?a tc_empty)) = (Inr ?f, snd (?a (snd (?a tc_empty))))"
    by (simp add: attachTC_def replaceQdisc_def QdiscReplace_def FilterReplace_def Let_def
        iface_lo_def tc_empty_def)
  have n: "length (filters (snd (?a tc_empty))) = 1" "length (qdiscs (snd (?a tc_empty))) = 1"
    by (simp_all add: attachTC_def replaceQdisc_def QdiscReplace_def FilterReplace_def Let_def
        iface_lo_def tc_empty_def)
  from attachTC_idempotent [OF wf first second] n show ?thesis by simp
qed

subsection \<open>The record, written by the probe and read by the loop\<close>

lemma uint32_le_le32: "uint32_le (le32 x) = x"
  unfolding uint32_le_def le32_def
  apply (simp add: bit_eq_iff bit_or_iff bit_push_bit_iff bit_ucast_iff bit_drop_bit_eq)
  apply (auto dest: bit_imp_le_length)
  subgoal for n
    by (cases "24 \<le> n") auto
  done

lemma length_le32: "length (le32 x) = 4"
  by (simp add: le32_def)

lemma binary_Read_wire_record:
  assumes "event_wf ev"
  shows "binary_Read (wire_record ev)
       = Inr \<lparr>Type = tc_type_code (type ev), Data = data ev, DataLen = data_len ev\<rparr>"
proof -
  have l: "length (data ev) = MAX_DATA_SIZE" using assms by (simp add: event_wf_def)
  have n: "wire_record ev \<noteq> []" by (simp add: wire_record_def le32_def)
  have s: "length (wire_record ev) = event_size"
    by (simp add: wire_record_def length_le32 l event_size_def)
  have a: "take 4 (wire_record ev) = le32 (tc_type_code (type ev))"
    by (simp add: wire_record_def length_le32)
  have b: "take MAX_DATA_SIZE (drop 4 (wire_record ev)) = data ev"
    by (simp add: wire_record_def length_le32 l)
  have c: "take 4 (drop (4 + MAX_DATA_SIZE) (wire_record ev)) = le32 (data_len ev)"
    by (simp add: wire_record_def length_le32 l)
  show ?thesis
    by (simp add: binary_Read_def n s a b c uint32_le_le32)
qed

subsection \<open>Steps and what they keep\<close>

lemma iter_same: "runPerf_iter r lg = runRingBuf_iter r lg"
  by (simp add: runPerf_iter_def runRingBuf_iter_def)

lemma runRingBuf_iter_Return:
  "fst (runRingBuf_iter r lg) = Return \<longleftrightarrow> (\<exists>err. r = Inl err \<and> errors_Is err ErrClosed)"
  by (auto simp: runRingBuf_iter_def split: sum.splits)

lemma run_defers_fields:
  "logged (run_defers e ds s) = logged s \<and> status (run_defers e ds s) = status s
   \<and> mode (run_defers e ds s) = mode s \<and> mainpc (run_defers e ds s) = mainpc s
   \<and> queueTask (run_defers e ds s) = queueTask s"
  by (induction ds arbitrary: s) (auto simp: run_deferred_def split: deferred.splits)

lemma run_not_Running: "status s \<noteq> Running \<Longrightarrow> run e sched s = s"
  by (induction sched arbitrary: s) (simp_all add: step_def)

lemma main_run: "main e k sched = run e sched (main e k [])"
  by (auto simp: main_def fatal_def run_not_Running split: sum.splits)

lemmas step_defs = step_def handler_step_def read_step_def send_step_def consume_step_def
  consumer_panics_def
  main_returns_def main_panics_def run_deferred_def fatal_def Let_def

lemma run_defers_more:
  "defers_main (run_defers e ds s) = defers_main s \<and> defers_run (run_defers e ds s) = defers_run s"
  by (induction ds arbitrary: s) (auto simp: run_deferred_def split: deferred.splits)

lemma handler_step_frame:
  "mode (handler_step e s) = mode s \<and> defers_main (handler_step e s) = defers_main s
   \<and> tc (handler_step e s) = tc s
   \<and> (status (handler_step e s) = status s \<or> status (handler_step e s) = Exited 1)"
  by (simp add: handler_step_def fatal_def split: handler_pc.split option.split)

lemma read_step_cases:
  "read_step e r s = s \<or> (\<exists>lg. read_step e r s = s\<lparr>logged := lg\<rparr>)
   \<or> (\<exists>lg ev. read_step e r s = s\<lparr>logged := lg, mainpc := AtSend ev\<rparr>)
   \<or> (\<exists>lg. read_step e r s = main_returns e (s\<lparr>logged := lg\<rparr>))"
  by (simp add: read_step_def Let_def split: ctl.split) blast

lemma send_step_cases:
  "send_step e s = s \<or> send_step e s = main_panics e s
   \<or> (\<exists>q. send_step e s = s\<lparr>queueTask := q, mainpc := AtRead\<rparr>)"
  by (simp add: send_step_def split: main_pc.split) blast

lemma consume_step_cases:
  "(\<exists>q. consume_step s = s\<lparr>queueTask := q\<rparr>)
   \<or> (\<exists>q. consume_step s = consumer_panics (s\<lparr>queueTask := q\<rparr>))"
proof (cases "buf (queueTask s)")
  case Nil
  then have "consume_step s = s\<lparr>queueTask := queueTask s\<rparr>" by (simp add: consume_step_def)
  then show ?thesis by blast
next
  case (Cons task rest)
  then show ?thesis by (auto simp: consume_step_def Let_def)
qed

lemma consumer_panics_fields:
  "status (consumer_panics s) = Exited 2 \<and> mode (consumer_panics s) = mode s
   \<and> defers_main (consumer_panics s) = defers_main s"
  by (simp add: consumer_panics_def)

lemma main_returns_fields:
  "status (main_returns e s) = Exited 0 \<and> mode (main_returns e s) = mode s
   \<and> defers_main (main_returns e s) = defers_main s
   \<and> tc (main_returns e s) = tc (run_defers e (defers_main s)
        ((run_defers e (defers_run s) s)
           \<lparr>logged := logged s @ [''Received signal, exiting TC program..'']\<rparr>))"
  by (simp add: main_returns_def Let_def run_defers_fields run_defers_more)

lemma main_panics_fields:
  "status (main_panics e s) = Exited 2 \<and> mode (main_panics e s) = mode s
   \<and> defers_main (main_panics e s) = defers_main s"
  by (simp add: main_panics_def Let_def run_defers_fields run_defers_more)

lemma step_frame:
  "defers_main (step e a s) = defers_main s \<and> mode (step e a s) = mode s"
proof (cases a)
  case Signal
  then show ?thesis by (simp add: step_def)
next
  case Handler
  then show ?thesis by (simp add: step_def handler_step_frame)
next
  case (Read r)
  with read_step_cases [of e r s] show ?thesis
    by (auto simp: step_def main_returns_fields)
next
  case SendTask
  with send_step_cases [of e s] show ?thesis
    by (auto simp: step_def main_panics_fields)
next
  case Consume
  with consume_step_cases [of s] show ?thesis
    by (auto simp: step_def consumer_panics_fields)
qed

lemma step_to_Exited0:
  assumes "status s = Running" and "status (step e a s) = Exited 0"
  shows "\<exists>r. a = Read r \<and> mainpc s = AtRead
           \<and> (rd_closed s \<or> (\<exists>err. r = Inl err \<and> errors_Is err ErrClosed))"
proof (cases a)
  case Signal
  with assms show ?thesis by (simp add: step_def)
next
  case Handler
  with assms handler_step_frame [of e s] show ?thesis by (auto simp: step_def)
next
  case (Read r)
  have pc: "mainpc s = AtRead"
    using assms Read by (auto simp: step_def read_step_def split: if_splits)
  let ?res = "if rd_closed s then Inl ErrClosed else r"
  let ?it = "case mode s of None \<Rightarrow> (Continue, logged s)
             | Some RingBuffer \<Rightarrow> runRingBuf_iter ?res (logged s)
             | Some PerfBuffer \<Rightarrow> runPerf_iter ?res (logged s)"
  have "fst ?it = Return"
    using assms Read pc
    by (cases "rd_closed s")
      (auto simp: step_def read_step_def Let_def split: ctl.splits
        cong: option.case_cong TransportMode.case_cong)
  then have "\<exists>err. ?res = Inl err \<and> errors_Is err ErrClosed"
    by (auto simp: iter_same runRingBuf_iter_Return split: option.splits TransportMode.splits)
  then have "rd_closed s \<or> (\<exists>err. r = Inl err \<and> errors_Is err ErrClosed)"
    by (auto split: if_splits)
  with Read pc show ?thesis by simp
next
  case SendTask
  with assms send_step_cases [of e s] show ?thesis
    by (auto simp: step_def main_panics_fields)
next
  case Consume
  with assms consume_step_cases [of s] show ?thesis
    by (auto simp: step_def consumer_panics_fields)
qed

lemma run_to_Exited0:
  assumes "status s = Running" and "status (run e sched s) = Exited 0"
  shows "\<exists>pre r post. sched = pre @ Read r # post
           \<and> status (run e pre s) = Running \<and> mainpc (run e pre s) = AtRead
           \<and> (rd_closed (run e pre s) \<or> (\<exists>err. r = Inl err \<and> errors_Is err ErrClosed))"
  using assms
proof (induction sched arbitrary: s)
  case Nil
  then show ?case by simp
next
  case (Cons a as)
  show ?case
  proof (cases "status (step e a s) = Running")
    case True
    from Cons.IH [OF True] Cons.prems(2) obtain pre r post where
      p: "as = pre @ Read r # post" "status (run e pre (step e a s)) = Running"
         "mainpc (run e pre (step e a s)) = AtRead"
         "rd_closed (run e pre (step e a s)) \<or> (\<exists>err. r = Inl err \<and> errors_Is err ErrClosed)"
      by auto
    show ?thesis
      by (rule exI [of _ "a # pre"], rule exI [of _ r], rule exI [of _ post]) (simp add: p)
  next
    case False
    then have "run e as (step e a s) = step e a s" by (rule run_not_Running)
    with Cons.prems(2) have "status (step e a s) = Exited 0" by simp
    from step_to_Exited0 [OF Cons.prems(1) this] obtain r where
      "a = Read r" "mainpc s = AtRead"
      "rd_closed s \<or> (\<exists>err. r = Inl err \<and> errors_Is err ErrClosed)"
      by blast
    then show ?thesis
      using Cons.prems(1)
      by (intro exI [of _ "[]"] exI [of _ r] exI [of _ as]) simp
  qed
qed

subsection \<open>Concrete runs of the program\<close>

lemma main_env_ok_start:
  "main env_ok tc_empty [] =
     \<lparr>mode = Some RingBuffer,
      tc = \<lparr>qdiscs = [\<lparr>QdiscLinkIndex = 1, QdiscHandle = MakeHandle 0xffff 0,
                        QdiscParent = HANDLE_CLSACT, QdiscType = ''clsact''\<rparr>],
            filters = [\<lparr>LinkIndex = 1, Parent = HANDLE_MIN_INGRESS, Handle = 1,
                         Protocol = ETH_P_ALL, Priority = 1, Fd = 7,
                         FilterName = ''classifier/ingress-lo'', DirectAction = True\<rparr>,
                       \<lparr>LinkIndex = 1, Parent = HANDLE_MIN_EGRESS, Handle = 1,
                         Protocol = ETH_P_ALL, Priority = 1, Fd = 8,
                         FilterName = ''classifier/egress-lo'', DirectAction = True\<rparr>]\<rparr>,
      logged = banner @ [''Listening for events..''], status = Running,
      defers_main =
        [Defer_FilterDel \<lparr>LinkIndex = 1, Parent = HANDLE_MIN_EGRESS, Handle = 1,
                         Protocol = ETH_P_ALL, Priority = 1, Fd = 8,
                         FilterName = ''classifier/egress-lo'', DirectAction = True\<rparr>,
         Defer_FilterDel \<lparr>LinkIndex = 1, Parent = HANDLE_MIN_INGRESS, Handle = 1,
                         Protocol = ETH_P_ALL, Priority = 1, Fd = 7,
                         FilterName = ''classifier/ingress-lo'', DirectAction = True\<rparr>,
         Defer_objs_Close],
      defers_run = [Defer_db_Close], queueTask = \<lparr>buf = [], closed = False\<rparr>,
      rd_closed = False, stopper = False, handler = WaitSignal, mainpc = AtRead\<rparr>"
  by (simp add: main_def main_select_def env_ok_def isMinKernelVer_def isMaxKernelVer_def
      start_def run_start_def proc0_def attachTC_def replaceQdisc_def QdiscReplace_def
      FilterReplace_def Let_def iface_lo_def tc_empty_def filter_key_def qdisc_key_def
      HANDLE_MIN_INGRESS_def HANDLE_MIN_EGRESS_def)

lemma run_handler_env_ok:
  "rd_Close e = None \<Longrightarrow>
   run e [Signal, Handler, Handler, Handler] (main env_ok tc_empty [])
   = (main env_ok tc_empty [])
       \<lparr>queueTask := \<lparr>buf = [], closed = True\<rparr>, rd_closed := True, handler := HandlerDone\<rparr>"
  by (simp add: main_env_ok_start step_def handler_step_def)

lemma main_start_FilterDel_err:
  "main (env_ok\<lparr>FilterDel_err := d\<rparr>) tc_empty [] = main env_ok tc_empty []"
  by (simp add: main_def main_select_def start_def run_start_def env_ok_def
      cong: option.case_cong prod.case_cong sum.case_cong if_cong)

lemma shutdown_env_ok:
  "main (env_ok\<lparr>FilterDel_err := d\<rparr>) tc_empty sched_shutdown
   = (main env_ok tc_empty [])
       \<lparr>tc := snd (FilterDel (d ingress_lo) ingress_lo
                  (snd (FilterDel (d egress_lo) egress_lo (tc (main env_ok tc_empty []))))),
        logged := banner @ [''Listening for events..'', ''file already closed'',
                            ''Received signal, exiting TC program..''],
        status := Exited 0, queueTask := \<lparr>buf = [], closed = True\<rparr>, rd_closed := True,
        handler := HandlerDone, mainpc := MainDone\<rparr>"
proof -
  let ?e = "env_ok\<lparr>FilterDel_err := d\<rparr>"
  have c: "rd_Close ?e = None" by (simp add: env_ok_def)
  have sp: "sched_shutdown = [Signal, Handler, Handler, Handler] @ [Read (Inl (New ''interrupted''))]"
    by (simp add: sched_shutdown_def)
  have ra: "run e (xs @ ys) s = run e ys (run e xs s)" for e :: "nat main_env" and xs ys s
    by (induction xs arbitrary: s) simp_all
  show ?thesis
    apply (subst main_run)
    apply (simp only: main_start_FilterDel_err sp ra run_handler_env_ok [OF c])
    apply (simp add: main_env_ok_start step_def read_step_def runRingBuf_iter_def
        main_returns_def run_deferred_def Let_def ingress_lo_def egress_lo_def)
    done
qed

lemma main_start_rd_Close:
  "main (env_ok\<lparr>rd_Close := x\<rparr>) tc_empty [] = main env_ok tc_empty []"
  by (simp add: main_def main_select_def start_def run_start_def env_ok_def
      cong: option.case_cong prod.case_cong sum.case_cong if_cong)

lemma filters_start_env_ok: "filters (tc (main env_ok tc_empty [])) = [ingress_lo, egress_lo]"
  by (simp add: main_env_ok_start ingress_lo_def egress_lo_def)

lemma keys_lo: "filter_key ingress_lo \<noteq> filter_key egress_lo"
  by (simp add: filter_key_def ingress_lo_def egress_lo_def HANDLE_MIN_INGRESS_def HANDLE_MIN_EGRESS_def)

text \<open>
  A record whose length field is above 4000 decodes, is queued, and makes the consumer
  panic: the process exits with status 2 and both filters stay attached.
\<close>

lemma uint32_le_4001: "uint32_le [0xA1, 0x0F, 0, 0] = 4001"
  by code_simp

lemma binary_Read_raw_long:
  "binary_Read raw_long = Inr \<lparr>Type = 0, Data = replicate MAX_DATA_SIZE 0, DataLen = 4001\<rparr>"
proof -
  have t: "uint32_le (take 4 raw_long) = 0"
    by (simp add: raw_long_def MAX_DATA_SIZE_def uint32_le_def)
  have d: "take MAX_DATA_SIZE (drop 4 raw_long) = replicate MAX_DATA_SIZE 0"
    by (simp add: raw_long_def MAX_DATA_SIZE_def)
  have l: "take 4 (drop (4 + MAX_DATA_SIZE) raw_long) = [0xA1, 0x0F, 0, 0]"
    by (simp add: raw_long_def)
  have n: "raw_long \<noteq> []" "\<not> length raw_long < event_size"
    by (simp_all add: raw_long_def event_size_def MAX_DATA_SIZE_def)
  show ?thesis
    by (simp add: binary_Read_def n t d l uint32_le_4001)
qed

lemma consumer_panic_leaves_filters:
  "status (main env_ok tc_empty [Read (Inr raw_long), SendTask, Consume]) = Exited 2
   \<and> filters (tc (main env_ok tc_empty [Read (Inr raw_long), SendTask, Consume]))
       = [ingress_lo, egress_lo]"
proof -
  let ?ev = "\<lparr>Type = 0, Data = replicate MAX_DATA_SIZE 0, DataLen = 4001\<rparr>"
  have a: "run env_ok [Read (Inr raw_long), SendTask] (main env_ok tc_empty [])
         = (main env_ok tc_empty [])\<lparr>queueTask := \<lparr>buf = [?ev], closed = False\<rparr>\<rparr>"
    by (simp add: main_env_ok_start step_def read_step_def send_step_def runRingBuf_iter_def
        binary_Read_raw_long queue_cap_def)
  have b: "run env_ok [Read (Inr raw_long), SendTask, Consume] (main env_ok tc_empty [])
         = step env_ok Consume (run env_ok [Read (Inr raw_long), SendTask] (main env_ok tc_empty []))"
    by simp
  show ?thesis
    apply (subst (1 2) main_run)
    unfolding b a
    by (simp add: main_env_ok_start step_def consume_step_def consumer_panics_def
        MAX_DATA_SIZE_def ingress_lo_def egress_lo_def)
qed

subsection \<open>The read loop\<close>

text \<open>
  C6. In the read loop of either transport (the process runs, the main goroutine stands
  before \<^verbatim>\<open>rd.Read()\<close>): the read ends the loop cleanly, with the deferred calls run and
  exit status 0, if and only if its result is the reader-closed error (possibly
  wrapped); on any other read error the loop logs and continues, nothing else changes;
  on a record that does not decode the loop logs, drops the record and continues. The same
  holds of the loop bodies of \<^verbatim>\<open>runRingBuf\<close> and \<^verbatim>\<open>runPerf\<close>; and a run that ends with
  exit status 0 contains a read that returned the closed-error.
\<close>

theorem read_loop_exit_only_on_closed:
  assumes "status s = Running" and "mainpc s = AtRead" and "mode s = Some m"
      and "res = (if rd_closed s then Inl ErrClosed else r)"
  shows "((status (step e (Read r) s) = Exited 0 \<and> mainpc (step e (Read r) s) = MainDone)
            \<longleftrightarrow> (\<exists>err. res = Inl err \<and> errors_Is err ErrClosed))
       \<and> ((\<exists>err. res = Inl err \<and> \<not> errors_Is err ErrClosed) \<longrightarrow>
            step e (Read r) s = s\<lparr>logged := logged s @ [''reading from perf event reader: %s'']\<rparr>)
       \<and> ((\<exists>raw err. res = Inr raw \<and> binary_Read raw = Inl err) \<longrightarrow>
            step e (Read r) s = s\<lparr>logged := logged s @ [''parsing perf event: %s'']\<rparr>)
       \<and> (fst (runRingBuf_iter res lg) = Return \<longleftrightarrow> (\<exists>err. res = Inl err \<and> errors_Is err ErrClosed))
       \<and> (fst (runPerf_iter res lg) = Return \<longleftrightarrow> (\<exists>err. res = Inl err \<and> errors_Is err ErrClosed))
       \<and> (status (run e sched s) = Exited 0 \<longrightarrow>
            (\<exists>pre r' post. sched = pre @ Read r' # post
               \<and> status (run e pre s) = Running \<and> mainpc (run e pre s) = AtRead
               \<and> (rd_closed (run e pre s) \<or> (\<exists>err. r' = Inl err \<and> errors_Is err ErrClosed))))"
proof -
  have st: "step e (Read r) s =
      (let it = runRingBuf_iter res (logged s); s1 = s\<lparr>logged := snd it\<rparr>
       in case fst it of Continue \<Rightarrow> s1 | Return \<Rightarrow> main_returns e s1
          | Send event \<Rightarrow> s1\<lparr>mainpc := AtSend event\<rparr>)"
    using assms by (simp add: step_def read_step_def iter_same Let_def split: TransportMode.split cong: ctl.case_cong)
  have a: "(status (step e (Read r) s) = Exited 0 \<and> mainpc (step e (Read r) s) = MainDone)
            \<longleftrightarrow> (\<exists>err. res = Inl err \<and> errors_Is err ErrClosed)"
    unfolding st using assms(1,2)
    by (auto simp: runRingBuf_iter_def main_returns_def Let_def run_defers_fields
        split: sum.splits)
  have b: "(\<exists>err. res = Inl err \<and> \<not> errors_Is err ErrClosed) \<longrightarrow>
            step e (Read r) s = s\<lparr>logged := logged s @ [''reading from perf event reader: %s'']\<rparr>"
    unfolding st by (auto simp: runRingBuf_iter_def)
  have c: "(\<exists>raw err. res = Inr raw \<and> binary_Read raw = Inl err) \<longrightarrow>
            step e (Read r) s = s\<lparr>logged := logged s @ [''parsing perf event: %s'']\<rparr>"
    unfolding st by (auto simp: runRingBuf_iter_def)
  have d: "status (run e sched s) = Exited 0 \<longrightarrow>
            (\<exists>pre r' post. sched = pre @ Read r' # post
               \<and> status (run e pre s) = Running \<and> mainpc (run e pre s) = AtRead
               \<and> (rd_closed (run e pre s) \<or> (\<exists>err. r' = Inl err \<and> errors_Is err ErrClosed)))"
    using run_to_Exited0 [OF assms(1), of e sched] by blast
  show ?thesis
    using a b c d by (simp add: runRingBuf_iter_Return iter_same)
qed

theorem read_loop_exit_only_on_closed_witness:
  "step env_ok (Read (Inl (New ''interrupted''))) (main env_ok tc_empty [])
     = (main env_ok tc_empty [])\<lparr>logged := banner @ [''Listening for events..'',
                                                       ''reading from perf event reader: %s'']\<rparr>
   \<and> step env_ok (Read (Inr [1, 2, 3])) (main env_ok tc_empty [])
     = (main env_ok tc_empty [])\<lparr>logged := banner @ [''Listening for events..'',
                                                       ''parsing perf event: %s'']\<rparr>
   \<and> status (step env_ok (Read (Inl (Wrap ''epoll wait: '' ErrClosed))) (main env_ok tc_empty []))
     = Exited 0"
proof -
  let ?s = "main env_ok tc_empty []"
  have s: "status ?s = Running" "mainpc ?s = AtRead" "mode ?s = Some RingBuffer" "\<not> rd_closed ?s"
      "logged ?s = banner @ [''Listening for events..'']"
    by (simp_all add: main_env_ok_start)
  have d: "binary_Read [1, 2, 3] = Inl (New ''unexpected EOF'')"
    by (simp add: binary_Read_def event_size_def)
  have r1: "Inl (New ''interrupted'') = (if rd_closed ?s then Inl ErrClosed else Inl (New ''interrupted''))"
    and r2: "Inr [1, 2, 3] = (if rd_closed ?s then Inl ErrClosed else Inr [1, 2, 3])"
    and r3: "Inl (Wrap ''epoll wait: '' ErrClosed)
             = (if rd_closed ?s then Inl ErrClosed else Inl (Wrap ''epoll wait: '' ErrClosed))"
    using s(4) by simp_all
  from read_loop_exit_only_on_closed [OF s(1,2,3) r1, of env_ok]
       read_loop_exit_only_on_closed [OF s(1,2,3) r2, of env_ok]
       read_loop_exit_only_on_closed [OF s(1,2,3) r3, of env_ok]
  show ?thesis
    by (simp add: d s(5))
qed

subsection \<open>The shutdown\<close>

text \<open>
  C1. The order of the shutdown in the code: after the signal the signal goroutine closes
  the queue while the reader is still open and the main goroutine still in the read
  loop; a record read and decoded then is sent on the closed queue, and the process
  panics (exit status 2).
\<close>

theorem shutdown_closes_queue_before_reader:
  "closed (queueTask (main env_ok tc_empty [Signal, Handler, Handler]))
   \<and> \<not> rd_closed (main env_ok tc_empty [Signal, Handler, Handler])
   \<and> mainpc (main env_ok tc_empty [Signal, Handler, Handler]) = AtRead
   \<and> status (main env_ok tc_empty [Signal, Handler, Handler]) = Running
   \<and> status (main env_ok tc_empty [Signal, Handler, Handler, Read (Inr raw_ok), SendTask]) = Exited 2
   \<and> last (logged (main env_ok tc_empty [Signal, Handler, Handler, Read (Inr raw_ok), SendTask]))
       = ''panic: send on closed channel''"
proof -
  have d: "\<exists>ev. binary_Read raw_ok = Inr ev"
    by (simp add: binary_Read_def raw_ok_def event_size_def MAX_DATA_SIZE_def)
  then obtain ev where ev: "binary_Read raw_ok = Inr ev" ..
  have a: "run env_ok [Signal, Handler, Handler] (main env_ok tc_empty [])
         = (main env_ok tc_empty [])\<lparr>queueTask := \<lparr>buf = [], closed = True\<rparr>, handler := CloseReader\<rparr>"
    by (simp add: main_env_ok_start step_defs)
  have b: "run env_ok [Signal, Handler, Handler, Read (Inr raw_ok)] (main env_ok tc_empty [])
         = (main env_ok tc_empty [])\<lparr>queueTask := \<lparr>buf = [], closed = True\<rparr>, handler := CloseReader,
              mainpc := AtSend ev\<rparr>"
    by (simp add: main_env_ok_start step_defs runRingBuf_iter_def ev)
  have c: "run env_ok [Signal, Handler, Handler, Read (Inr raw_ok), SendTask] (main env_ok tc_empty [])
         = step env_ok SendTask (run env_ok [Signal, Handler, Handler, Read (Inr raw_ok)] (main env_ok tc_empty []))"
    by simp
  show ?thesis
    apply (subst (1 2 3 4 5 6) main_run)
    unfolding c unfolding a b
    by (simp add: main_env_ok_start step_defs)
qed

subsection \<open>The choice of the transport\<close>

lemma mode_run: "mode (run e sched s) = mode s"
  by (induction sched arbitrary: s) (simp_all add: step_frame)

lemma mode_start: "mode (start m e iface p) = mode p"
  by (auto simp: start_def run_start_def fatal_def Let_def split: option.splits sum.splits prod.splits)

text \<open>
  C8. With an interface and a kernel version at hand, and the minimum not above the second
  threshold: a version below the minimum makes \<^verbatim>\<open>main\<close> exit with status 1 before
  anything is attached and no transport is chosen; a version at or above the second
  threshold selects the ring buffer, a version between the two the perf buffer; and the
  transport of the process is the selected one after every schedule.
\<close>

theorem transport_selection:
  assumes name: "length (InterfaceName e) \<noteq> 0"
      and iface: "InterfaceByName e = Inr iface"
      and ver: "GetKernelVersion e = Inr v"
      and thresholds: "minKernelVer e \<le> maxKernelVer e"
  shows "(v < minKernelVer e \<longrightarrow>
            (\<exists>msg. main_select e = Inl msg) \<and> status (main e k sched) = Exited 1
            \<and> mode (main e k sched) = None \<and> tc (main e k sched) = k)
       \<and> (maxKernelVer e \<le> v \<longrightarrow>
            main_select e = Inr (RingBuffer, iface) \<and> mode (main e k sched) = Some RingBuffer)
       \<and> (minKernelVer e \<le> v \<and> v < maxKernelVer e \<longrightarrow>
            main_select e = Inr (PerfBuffer, iface) \<and> mode (main e k sched) = Some PerfBuffer)"
proof -
  have sel: "main_select e =
      (if \<not> minKernelVer e \<le> v
       then Inl ''kernel version: NOT OK: minimal supported kernel version is %s; kernel version that is running is: %s''
       else if maxKernelVer e \<le> v then Inr (RingBuffer, iface) else Inr (PerfBuffer, iface))"
    using name iface ver by (simp add: main_select_def isMinKernelVer_def isMaxKernelVer_def)
  have low: "v < minKernelVer e \<Longrightarrow> main e k sched =
      fatal ''kernel version: NOT OK: minimal supported kernel version is %s; kernel version that is running is: %s'' (proc0 k)"
    by (simp add: main_def sel)
  have ring: "maxKernelVer e \<le> v \<Longrightarrow> mode (main e k sched) = Some RingBuffer"
    using thresholds by (auto simp add: main_def sel mode_run mode_start)
  have perf: "minKernelVer e \<le> v \<Longrightarrow> v < maxKernelVer e \<Longrightarrow> mode (main e k sched) = Some PerfBuffer"
    by (simp add: main_def sel mode_run mode_start)
  show ?thesis
    using thresholds low ring perf by (auto simp: sel fatal_def proc0_def)
qed

theorem transport_selection_witness:
  "status (main (env_ok\<lparr>GetKernelVersion := Inr 400\<rparr>) tc_empty [Signal]) = Exited 1
   \<and> mode (main (env_ok\<lparr>GetKernelVersion := Inr 508\<rparr>) tc_empty [Signal]) = Some RingBuffer
   \<and> mode (main (env_ok\<lparr>GetKernelVersion := Inr 507\<rparr>) tc_empty [Signal]) = Some PerfBuffer"
proof -
  have a: "length (InterfaceName (env_ok\<lparr>GetKernelVersion := Inr v\<rparr>)) \<noteq> 0"
    and b: "InterfaceByName (env_ok\<lparr>GetKernelVersion := Inr v\<rparr>) = Inr iface_lo"
    and c: "GetKernelVersion (env_ok\<lparr>GetKernelVersion := Inr v\<rparr>) = Inr v"
    and d: "minKernelVer (env_ok\<lparr>GetKernelVersion := Inr v\<rparr>) \<le> maxKernelVer (env_ok\<lparr>GetKernelVersion := Inr v\<rparr>)"
    and m: "minKernelVer (env_ok\<lparr>GetKernelVersion := Inr v\<rparr>) = 415"
           "maxKernelVer (env_ok\<lparr>GetKernelVersion := Inr v\<rparr>) = 508"
    for v
    by (simp_all add: env_ok_def)
  from transport_selection [OF a b c d, of 400 tc_empty "[Signal]"]
       transport_selection [OF a b c d, of 508 tc_empty "[Signal]"]
       transport_selection [OF a b c d, of 507 tc_empty "[Signal]"]
  show ?thesis by (simp add: m)
qed

subsection \<open>The teardown\<close>

lemma run_defers_append: "run_defers e (ds @ ds') s = run_defers e ds' (run_defers e ds s)"
  by (induction ds arbitrary: s) simp_all

lemma run_defers_filters_subset:
  "set (filters (tc (run_defers e ds s))) \<subseteq> set (filters (tc s))"
proof (induction ds arbitrary: s)
  case Nil
  then show ?case by simp
next
  case (Cons d ds)
  have "set (filters (tc (run_deferred e d s))) \<subseteq> set (filters (tc s))"
    by (auto simp: run_deferred_def FilterDel_def split: deferred.splits option.splits)
  with Cons [of "run_deferred e d s"] show ?case by auto
qed

lemma run_defers_clean:
  assumes "armed fi fe s'" and "ds = defers_main s'"
  shows "clean e fi fe (run_defers e ds s)"
proof -
  from assms obtain pre where
    ds: "ds = pre @ [Defer_FilterDel fe, Defer_FilterDel fi, Defer_objs_Close]"
    by (auto simp: armed_def)
  let ?s1 = "run_defers e pre s"
  let ?s2 = "run_deferred e (Defer_FilterDel fe) ?s1"
  let ?s3 = "run_deferred e (Defer_FilterDel fi) ?s2"
  have fin: "filters (tc (run_defers e ds s)) = filters (tc ?s3)"
    by (simp add: ds run_defers_append run_deferred_def)
  have sub: "set (filters (tc ?s3)) \<subseteq> set (filters (tc ?s2))"
    by (auto simp: run_deferred_def FilterDel_def split: option.splits)
  have e2: "FilterDel_err e fe = None \<Longrightarrow>
      \<forall>f \<in> set (filters (tc ?s2)). filter_key f \<noteq> filter_key fe"
    by (simp add: run_deferred_def FilterDel_def)
  have i3: "FilterDel_err e fi = None \<Longrightarrow>
      \<forall>f \<in> set (filters (tc ?s3)). filter_key f \<noteq> filter_key fi"
    by (simp add: run_deferred_def FilterDel_def)
  show ?thesis
    unfolding clean_def fin using sub e2 i3 by blast
qed

lemma start_status:
  "status p = Running \<Longrightarrow> status (start m e iface p) = Running \<or> status (start m e iface p) = Exited 1"
  by (auto simp: start_def run_start_def fatal_def Let_def split: option.splits sum.splits prod.splits)

lemma start_armed:
  assumes "status (start m e iface p) = Running" and emp: "defers_main p = []"
  shows "armed (infIngress e iface) (infEgress e iface) (start m e iface p)"
proof -
  from assms obtain fi k1 fe k2 where
    i: "attachTC (attach_ingress e) iface (IngressClsFunc e) ''classifier/ingress''
          HANDLE_MIN_INGRESS (tc p) = (Inr fi, k1)"
    and eg: "attachTC (attach_egress e) iface (EgressClsFunc e) ''classifier/egress''
          HANDLE_MIN_EGRESS k1 = (Inr fe, k2)"
    and d: "defers_main (start m e iface p) =
        (if m = PerfBuffer then [Defer_rd_Close] else [])
        @ [Defer_FilterDel fe, Defer_FilterDel fi, Defer_objs_Close] @ defers_main p"
    by (auto simp: start_def run_start_def fatal_def Let_def
        split: option.splits sum.splits prod.splits if_splits)
  have "fi = infIngress e iface" "fe = infEgress e iface"
    using attachTC_success [OF i] attachTC_success [OF eg]
    by (simp_all add: infIngress_def infEgress_def)
  then show ?thesis
    unfolding armed_def using d emp
    by (intro exI [of _ "if m = PerfBuffer then [Defer_rd_Close] else []"]) simp
qed

lemma step_Exited0:
  assumes "status s = Running" and "status (step e a s) = Exited 0"
  shows "\<exists>s2. tc (step e a s) = tc (run_defers e (defers_main s) s2)"
proof (cases a)
  case Signal
  with assms show ?thesis by (simp add: step_def)
next
  case Handler
  with assms handler_step_frame [of e s] show ?thesis by (auto simp: step_def)
next
  case (Read r)
  with assms read_step_cases [of e r s] obtain lg where
    "step e a s = main_returns e (s\<lparr>logged := lg\<rparr>)"
    by (auto simp: step_def)
  then show ?thesis
    using main_returns_fields [of e "s\<lparr>logged := lg\<rparr>"] by auto
next
  case SendTask
  with assms send_step_cases [of e s] show ?thesis
    by (auto simp: step_def main_panics_fields)
next
  case Consume
  with assms consume_step_cases [of s] show ?thesis
    by (auto simp: step_def consumer_panics_fields)
qed

lemma step_invariant:
  assumes inv: "(status s = Running \<longrightarrow> armed fi fe s) \<and> (status s = Exited 0 \<longrightarrow> clean e fi fe s)"
  shows "(status (step e a s) = Running \<longrightarrow> armed fi fe (step e a s))
       \<and> (status (step e a s) = Exited 0 \<longrightarrow> clean e fi fe (step e a s))"
proof (cases "status s = Running")
  case False
  then have "step e a s = s" by (simp add: step_def)
  with inv show ?thesis by simp
next
  case True
  with inv have ar: "armed fi fe s" by simp
  have r: "status (step e a s) = Running \<Longrightarrow> armed fi fe (step e a s)"
    using step_frame [of e a s] ar by (simp add: armed_def)
  have x: "status (step e a s) = Exited 0 \<Longrightarrow> clean e fi fe (step e a s)"
  proof -
    assume "status (step e a s) = Exited 0"
    from step_Exited0 [OF True this] obtain s2 where
      "tc (step e a s) = tc (run_defers e (defers_main s) s2)" by blast
    moreover have "clean e fi fe (run_defers e (defers_main s) s2)"
      using ar by (rule run_defers_clean) simp
    ultimately show ?thesis by (simp add: clean_def)
  qed
  from r x show ?thesis by blast
qed

lemma run_invariant:
  assumes inv: "(status s = Running \<longrightarrow> armed fi fe s) \<and> (status s = Exited 0 \<longrightarrow> clean e fi fe s)"
  shows "status (run e sched s) = Exited 0 \<longrightarrow> clean e fi fe (run e sched s)"
  using inv
proof (induction sched arbitrary: s)
  case Nil
  then show ?case by simp
next
  case (Cons a as)
  from step_invariant [OF Cons.prems, of a]
  show ?case by (simp add: Cons.IH)
qed

lemma obs_run_deferred:
  "obs s' = obs s \<Longrightarrow> obs (run_deferred e' d s') = obs (run_deferred e d s)"
  by (simp add: obs_def run_deferred_def split: deferred.split)

lemma obs_run_defers:
  "obs s' = obs s \<Longrightarrow> obs (run_defers e' ds s') = obs (run_defers e ds s)"
proof (induction ds arbitrary: s s')
  case Nil
  then show ?case by simp
next
  case (Cons d ds)
  from Cons.prems have "obs (run_deferred e' d s') = obs (run_deferred e d s)"
    by (rule obs_run_deferred)
  then show ?case by (simp add: Cons.IH)
qed

lemma obs_logged_update:
  "obs s' = obs s \<Longrightarrow> obs (s'\<lparr>logged := lg\<rparr>) = obs (s\<lparr>logged := lg\<rparr>)"
  by (simp add: obs_def)

lemma obs_main_returns:
  assumes "obs s' = obs s"
  shows "obs (main_returns e' s') = obs (main_returns e s)"
proof -
  from assms have f: "defers_run s' = defers_run s" "defers_main s' = defers_main s"
    by (simp_all add: obs_def)
  have a: "obs (run_defers e' (defers_run s) s') = obs (run_defers e (defers_run s) s)"
    using assms by (rule obs_run_defers)
  then have l: "logged (run_defers e' (defers_run s) s') = logged (run_defers e (defers_run s) s)"
    by (simp add: obs_def)
  have b: "obs ((run_defers e' (defers_run s) s')\<lparr>logged := lg\<rparr>)
         = obs ((run_defers e (defers_run s) s)\<lparr>logged := lg\<rparr>)" for lg
    using a by (rule obs_logged_update)
  have c: "obs (run_defers e' (defers_main s) ((run_defers e' (defers_run s) s')\<lparr>logged := lg\<rparr>))
         = obs (run_defers e (defers_main s) ((run_defers e (defers_run s) s)\<lparr>logged := lg\<rparr>))" for lg
    using b by (rule obs_run_defers)
  show ?thesis
    using c [of "logged (run_defers e (defers_run s) s) @ [''Received signal, exiting TC program..'']"]
    by (simp add: main_returns_def Let_def f l) (simp add: obs_def)
qed

lemma obs_main_panics:
  assumes "obs s' = obs s"
  shows "obs (main_panics e' s') = obs (main_panics e s)"
proof -
  from assms have f: "defers_run s' = defers_run s" "defers_main s' = defers_main s"
    by (simp_all add: obs_def)
  have a: "obs (run_defers e' (defers_run s) s') = obs (run_defers e (defers_run s) s)"
    using assms by (rule obs_run_defers)
  have c: "obs (run_defers e' (defers_main s) (run_defers e' (defers_run s) s'))
         = obs (run_defers e (defers_main s) (run_defers e (defers_run s) s))"
    using a by (rule obs_run_defers)
  show ?thesis
    using c by (simp add: main_panics_def Let_def f) (simp add: obs_def)
qed

lemma obs_handler_step:
  "rd_Close e' = rd_Close e \<Longrightarrow> obs s' = obs s \<Longrightarrow> obs (handler_step e' s') = obs (handler_step e s)"
  by (simp add: obs_def handler_step_def fatal_def split: handler_pc.split option.split)

lemma obs_read_step:
  assumes "obs s' = obs s"
  shows "obs (read_step e' r s') = obs (read_step e r s)"
proof -
  from assms have f: "mainpc s' = mainpc s" "rd_closed s' = rd_closed s" "mode s' = mode s"
      "logged s' = logged s"
    by (simp_all add: obs_def)
  have l: "obs (s'\<lparr>logged := lg\<rparr>) = obs (s\<lparr>logged := lg\<rparr>)" for lg
    using assms by (rule obs_logged_update)
  have m: "obs (main_returns e' (s'\<lparr>logged := lg\<rparr>)) = obs (main_returns e (s\<lparr>logged := lg\<rparr>))" for lg
    using l by (rule obs_main_returns)
  have p: "obs (s'\<lparr>logged := lg, mainpc := pc\<rparr>) = obs (s\<lparr>logged := lg, mainpc := pc\<rparr>)" for lg pc
    using assms by (simp add: obs_def)
  show ?thesis
    by (simp add: read_step_def Let_def f assms l m p split: ctl.split
        cong: option.case_cong TransportMode.case_cong)
qed

lemma obs_send_step:
  assumes "obs s' = obs s"
  shows "obs (send_step e' s') = obs (send_step e s)"
proof -
  from assms have f: "mainpc s' = mainpc s" "queueTask s' = queueTask s"
    by (simp_all add: obs_def)
  have p: "obs (s'\<lparr>queueTask := q, mainpc := pc\<rparr>) = obs (s\<lparr>queueTask := q, mainpc := pc\<rparr>)" for q pc
    using assms by (simp add: obs_def)
  show ?thesis
    by (simp add: send_step_def f assms p obs_main_panics [OF assms] split: main_pc.split)
qed

lemma obs_consume_step:
  "obs s' = obs s \<Longrightarrow> obs (consume_step s') = obs (consume_step s)"
  by (simp add: obs_def consume_step_def consumer_panics_def Let_def split: list.split)

lemma obs_step:
  assumes "rd_Close e' = rd_Close e" and "obs s' = obs s"
  shows "obs (step e' a s') = obs (step e a s)"
proof -
  from assms(2) have f: "status s' = status s" by (simp add: obs_def)
  have sg: "obs (s'\<lparr>stopper := True\<rparr>) = obs (s\<lparr>stopper := True\<rparr>)"
    using assms(2) by (simp add: obs_def)
  show ?thesis
    by (cases a)
      (simp_all add: step_def f assms(2) sg obs_handler_step [OF assms] obs_read_step [OF assms(2)]
        obs_send_step [OF assms(2)] obs_consume_step [OF assms(2)])
qed

lemma obs_run:
  "rd_Close e' = rd_Close e \<Longrightarrow> obs s' = obs s \<Longrightarrow> obs (run e' sched s') = obs (run e sched s)"
proof (induction sched arbitrary: s s')
  case Nil
  then show ?case by simp
next
  case (Cons a as)
  from Cons.prems have "obs (step e' a s') = obs (step e a s)" by (rule obs_step)
  with Cons.prems(1) show ?case by (simp add: Cons.IH)
qed

lemma main_FilterDel_err:
  "obs (main (e\<lparr>FilterDel_err := d\<rparr>) k sched) = obs (main e k sched)"
proof -
  have sel: "main_select (e\<lparr>FilterDel_err := d\<rparr>) = main_select e"
    by (simp add: main_select_def cong: sum.case_cong if_cong)
  have st: "start m (e\<lparr>FilterDel_err := d\<rparr>) iface p = start m e iface p" for m iface p
    by (simp add: start_def run_start_def cong: option.case_cong prod.case_cong sum.case_cong if_cong)
  have "obs (run (e\<lparr>FilterDel_err := d\<rparr>) sched s) = obs (run e sched s)" for s
    by (rule obs_run) simp_all
  then show ?thesis
    by (simp add: main_def sel st split: sum.split)
qed

text \<open>
  C5, as the code has it. When \<^verbatim>\<open>main\<close> returns (exit status 0), the deferred deletions
  have run, each on its own: the ingress filter is gone from the kernel's tables if the
  kernel accepts its deletion, and so is the egress filter if the kernel accepts its
  deletion, whatever the answer to the other; and an error of a deletion is dropped: the
  log and the exit status are the same whatever the deletions answer.
\<close>

theorem filters_deleted_when_main_returns:
  assumes exit0: "status (main e k sched) = Exited 0"
  shows "\<exists>m iface. main_select e = Inr (m, iface)
      \<and> (FilterDel_err e (infIngress e iface) = None \<longrightarrow>
            (\<forall>f \<in> set (filters (tc (main e k sched))).
               filter_key f \<noteq> filter_key (infIngress e iface)))
      \<and> (FilterDel_err e (infEgress e iface) = None \<longrightarrow>
            (\<forall>f \<in> set (filters (tc (main e k sched))).
               filter_key f \<noteq> filter_key (infEgress e iface)))
      \<and> filter_key (infIngress e iface) = (Index iface, HANDLE_MIN_INGRESS, ETH_P_ALL, 1, 1)
      \<and> filter_key (infEgress e iface) = (Index iface, HANDLE_MIN_EGRESS, ETH_P_ALL, 1, 1)
      \<and> (\<forall>d. logged (main (e\<lparr>FilterDel_err := d\<rparr>) k sched) = logged (main e k sched)
             \<and> status (main (e\<lparr>FilterDel_err := d\<rparr>) k sched) = Exited 0)"
proof -
  from exit0 obtain m iface where sel: "main_select e = Inr (m, iface)"
    by (auto simp: main_def fatal_def split: sum.splits)
  let ?p = "(proc0 k)\<lparr>mode := Some m, logged := banner\<rparr>"
  let ?fi = "infIngress e iface" and ?fe = "infEgress e iface"
  have m: "main e k sched = run e sched (start m e iface ?p)"
    by (simp add: main_def sel)
  have inv: "(status (start m e iface ?p) = Running \<longrightarrow> armed ?fi ?fe (start m e iface ?p))
           \<and> (status (start m e iface ?p) = Exited 0 \<longrightarrow> clean e ?fi ?fe (start m e iface ?p))"
    using start_status [of ?p m e iface] start_armed [of m e iface ?p]
    by (auto simp: proc0_def)
  have a: "clean e ?fi ?fe (main e k sched)"
    using run_invariant [where e = e and sched = sched, OF inv] exit0 by (simp add: m)
  have keys: "filter_key ?fi = (Index iface, HANDLE_MIN_INGRESS, ETH_P_ALL, 1, 1)"
      "filter_key ?fe = (Index iface, HANDLE_MIN_EGRESS, ETH_P_ALL, 1, 1)"
    by (simp_all add: filter_key_def infIngress_def infEgress_def)
  have b: "logged (main (e\<lparr>FilterDel_err := d\<rparr>) k sched) = logged (main e k sched)
         \<and> status (main (e\<lparr>FilterDel_err := d\<rparr>) k sched) = Exited 0" for d
    using main_FilterDel_err [where e = e and d = d and k = k and sched = sched] exit0 by (simp add: obs_def)
  from a have a1: "FilterDel_err e ?fi = None \<longrightarrow>
        (\<forall>f \<in> set (filters (tc (main e k sched))). filter_key f \<noteq> filter_key ?fi)"
    and a2: "FilterDel_err e ?fe = None \<longrightarrow>
        (\<forall>f \<in> set (filters (tc (main e k sched))). filter_key f \<noteq> filter_key ?fe)"
    by (simp_all add: clean_def)
  from b have b': "\<forall>d. logged (main (e\<lparr>FilterDel_err := d\<rparr>) k sched) = logged (main e k sched)
         \<and> status (main (e\<lparr>FilterDel_err := d\<rparr>) k sched) = Exited 0"
    by simp
  show ?thesis
    by (rule exI [of _ m], rule exI [of _ iface]) (intro conjI sel a1 a2 keys b')
qed

theorem filters_deleted_when_main_returns_witness:
  "status (main env_egress_busy tc_empty sched_shutdown) = Exited 0
   \<and> ingress_lo \<notin> set (filters (tc (main env_egress_busy tc_empty sched_shutdown)))
   \<and> filters (tc (main env_egress_busy tc_empty sched_shutdown)) = [egress_lo]
   \<and> filters (tc (main env_ok tc_empty sched_shutdown)) = []
   \<and> logged (main env_FilterDel_fails tc_empty sched_shutdown)
       = logged (main env_ok tc_empty sched_shutdown)"
proof -
  have e: "env_ok\<lparr>FilterDel_err := (\<lambda>_. None)\<rparr> = env_ok" by (simp add: env_ok_def)
  note ev = shutdown_env_ok [of "\<lambda>_. None", unfolded e]
  have st: "status (main env_ok tc_empty sched_shutdown) = Exited 0"
    by (simp add: ev)
  have fl: "filters (tc (main env_ok tc_empty sched_shutdown)) = []"
    using keys_lo by (auto simp add: ev FilterDel_def filters_start_env_ok)
  from filters_deleted_when_main_returns [OF st]
  have lg: "logged (main (env_ok\<lparr>FilterDel_err := (\<lambda>_. Some (New ''device or resource busy''))\<rparr>)
                 tc_empty sched_shutdown)
        = logged (main env_ok tc_empty sched_shutdown)"
    by blast
  have pi: "Parent ingress_lo \<noteq> HANDLE_MIN_EGRESS" and pe: "Parent egress_lo = HANDLE_MIN_EGRESS"
    by (simp_all add: ingress_lo_def egress_lo_def HANDLE_MIN_INGRESS_def HANDLE_MIN_EGRESS_def)
  have stb: "status (main env_egress_busy tc_empty sched_shutdown) = Exited 0"
    by (simp add: env_egress_busy_def shutdown_env_ok)
  have flb: "filters (tc (main env_egress_busy tc_empty sched_shutdown)) = [egress_lo]"
    using keys_lo
    by (simp add: env_egress_busy_def shutdown_env_ok FilterDel_def filters_start_env_ok pi pe)
  have sel: "main_select env_egress_busy = Inr (RingBuffer, iface_lo)"
    by (simp add: env_egress_busy_def main_select_def env_ok_def isMinKernelVer_def
        isMaxKernelVer_def)
  have fi: "infIngress env_egress_busy iface_lo = ingress_lo"
    by (simp add: infIngress_def ingress_lo_def env_egress_busy_def env_ok_def iface_lo_def)
  have acc: "FilterDel_err env_egress_busy ingress_lo = None"
    by (simp add: env_egress_busy_def pi)
  from filters_deleted_when_main_returns [OF stb] sel fi acc
  have "\<forall>f \<in> set (filters (tc (main env_egress_busy tc_empty sched_shutdown))).
          filter_key f \<noteq> filter_key ingress_lo"
    by auto
  then have gone: "ingress_lo \<notin> set (filters (tc (main env_egress_busy tc_empty sched_shutdown)))"
    by blast
  from st stb gone flb fl lg show ?thesis by (simp add: env_FilterDel_fails_def)
qed

text \<open>
  C5, as it is stated, fails twice. When the database cannot be opened, or when closing
  the reader fails during the shutdown, the process exits through \<^verbatim>\<open>log.Fatal\<close> with
  both filters still attached; and when the deletions fail during an orderly shutdown,
  the filters stay, the exit status is 0 and the log has no line about the failures.
\<close>

theorem filters_survive_fatal_exit_and_errors_unlogged:
  "status (main env_OpenFile_fails tc_empty []) = Exited 1
   \<and> filters (tc (main env_OpenFile_fails tc_empty [])) = [ingress_lo, egress_lo]
   \<and> status (main env_rd_Close_fails tc_empty [Signal, Handler, Handler, Handler]) = Exited 1
   \<and> filters (tc (main env_rd_Close_fails tc_empty [Signal, Handler, Handler, Handler]))
       = [ingress_lo, egress_lo]
   \<and> status (main env_FilterDel_fails tc_empty sched_shutdown) = Exited 0
   \<and> filters (tc (main env_FilterDel_fails tc_empty sched_shutdown)) = [ingress_lo, egress_lo]
   \<and> logged (main env_FilterDel_fails tc_empty sched_shutdown)
       = banner @ [''Listening for events..'', ''file already closed'',
                   ''Received signal, exiting TC program..'']"
proof -
  have a: "status (main env_OpenFile_fails tc_empty []) = Exited 1
         \<and> filters (tc (main env_OpenFile_fails tc_empty [])) = [ingress_lo, egress_lo]"
    by (simp add: env_OpenFile_fails_def main_def main_select_def env_ok_def isMinKernelVer_def
        isMaxKernelVer_def start_def run_start_def proc0_def attachTC_def replaceQdisc_def
        QdiscReplace_def FilterReplace_def Let_def iface_lo_def tc_empty_def filter_key_def qdisc_key_def
        HANDLE_MIN_INGRESS_def HANDLE_MIN_EGRESS_def fatal_def ingress_lo_def egress_lo_def)
  have b: "status (main env_FilterDel_fails tc_empty sched_shutdown) = Exited 0
         \<and> filters (tc (main env_FilterDel_fails tc_empty sched_shutdown)) = [ingress_lo, egress_lo]
         \<and> logged (main env_FilterDel_fails tc_empty sched_shutdown)
             = banner @ [''Listening for events..'', ''file already closed'',
                         ''Received signal, exiting TC program..'']"
    by (simp add: env_FilterDel_fails_def shutdown_env_ok FilterDel_def filters_start_env_ok)
  let ?e = "env_ok\<lparr>rd_Close := Some (New ''bad file descriptor'')\<rparr>"
  have rc: "rd_Close ?e = Some (New ''bad file descriptor'')" by (simp add: env_ok_def)
  have r: "run ?e [Signal, Handler, Handler, Handler] (main env_ok tc_empty [])
         = fatal ''closing perf event reader: %s''
             ((main env_ok tc_empty [])\<lparr>queueTask := \<lparr>buf = [], closed = True\<rparr>,
                                          handler := CloseReader\<rparr>)"
    by (simp add: main_env_ok_start step_def handler_step_def fatal_def rc)
  have m: "main env_rd_Close_fails tc_empty [Signal, Handler, Handler, Handler]
         = run ?e [Signal, Handler, Handler, Handler] (main env_ok tc_empty [])"
    unfolding env_rd_Close_fails_def by (subst main_run) (simp only: main_start_rd_Close)
  have c: "status (main env_rd_Close_fails tc_empty [Signal, Handler, Handler, Handler]) = Exited 1
         \<and> filters (tc (main env_rd_Close_fails tc_empty [Signal, Handler, Handler, Handler]))
             = [ingress_lo, egress_lo]"
    unfolding m r by (simp add: fatal_def filters_start_env_ok)
  from a b c show ?thesis by simp
qed

end
